theory Spec2Isabelle
  imports Complex_Main
begin

section \<open>Configuration\<close>

text \<open>
  \<open>MockAPIConfig\<close>: the fields the request pipeline reads. Host, port and the fixture
  directory only matter to the socket and to the loader and are left out.
  \<open>rate_limit_requests\<close> is a Python int set from the command line (any integer);
  \<open>rate_limit_window\<close> is the integer number of seconds of the window.
\<close>

record MockAPIConfig =
  response_delay_min :: real
  response_delay_max :: real
  failure_rate :: real
  rate_limit_requests :: int
  rate_limit_window :: int

section \<open>Rate limiting\<close>

text \<open>
  \<open>RateLimiter.requests\<close> is a dict from the client address to the list of the instants
  (\<open>time.time()\<close>, seconds as a real number) of its recorded requests. The lock makes
  each call atomic, so a call is a function from the dict to the new dict; the clock
  reading \<open>now\<close> is an argument.
\<close>

type_synonym RateLimiter = "string \<rightharpoonup> real list"

definition recorded :: "RateLimiter \<Rightarrow> string \<Rightarrow> real list" where
  \<comment> \<open>\<open>self.requests.get(client_ip, [])\<close>\<close>
  "recorded requests client_ip = (case requests client_ip of None \<Rightarrow> [] | Some l \<Rightarrow> l)"

definition is_rate_limited ::
  "MockAPIConfig \<Rightarrow> real \<Rightarrow> string \<Rightarrow> RateLimiter \<Rightarrow> bool \<times> RateLimiter" where
  "is_rate_limited config now client_ip requests =
     (let window_start = now - real_of_int (rate_limit_window config);
          requests1 = (if client_ip \<notin> dom requests then requests(client_ip \<mapsto> []) else requests);
          kept = filter (\<lambda>req_time. req_time > window_start) (recorded requests1 client_ip);
          requests2 = requests1(client_ip \<mapsto> kept)
      in if int (length kept) \<ge> rate_limit_requests config
         then (True, requests2)
         else (False, requests2(client_ip \<mapsto> kept @ [now])))"

record rate_info =
  limit :: int
  remaining :: int
  reset :: int

definition py_int :: "real \<Rightarrow> int" where
  \<comment> \<open>Python's \<open>int(x)\<close> on a float: truncation towards zero\<close>
  "py_int x = (if 0 \<le> x then \<lfloor>x\<rfloor> else \<lceil>x\<rceil>)"

definition get_rate_limit_info ::
  "MockAPIConfig \<Rightarrow> real \<Rightarrow> string \<Rightarrow> RateLimiter \<Rightarrow> rate_info" where
  "get_rate_limit_info config now client_ip requests =
     (let current_count = int (length (recorded requests client_ip));
          remaining = max 0 (rate_limit_requests config - current_count);
          reset_time = py_int (now + real_of_int (rate_limit_window config))
      in \<lparr>limit = rate_limit_requests config, remaining = remaining, reset = reset_time\<rparr>)"

text \<open>
  The serving loop calls \<open>is_rate_limited\<close> once per request, under the lock. \<open>serve\<close>
  runs it over a sequence of requests (client address, clock reading) in arrival
  order and returns, for every request, whether it was rejected.
\<close>

fun serve ::
  "MockAPIConfig \<Rightarrow> (string \<times> real) list \<Rightarrow> RateLimiter \<Rightarrow> bool list \<times> RateLimiter" where
  "serve config [] requests = ([], requests)"
| "serve config ((client_ip, now) # es) requests =
     (let (limited, requests1) = is_rate_limited config now client_ip requests;
          (rest, requests2) = serve config es requests1
      in (limited # rest, requests2))"

text \<open>
  The quantity the specification calls \<open>currentWindowCount\<close>: the recorded instants of
  the client that lie within the trailing window of the instant \<open>now\<close>.
\<close>

definition currentWindowCount :: "MockAPIConfig \<Rightarrow> real \<Rightarrow> string \<Rightarrow> RateLimiter \<Rightarrow> nat" where
  "currentWindowCount config now client_ip requests =
     length (filter (\<lambda>t. now - real_of_int (rate_limit_window config) < t)
       (recorded requests client_ip))"

text \<open>
  The instants at which the requests of one client were admitted, in arrival order, when
  the server starts with an empty limiter and serves the requests \<open>es\<close>.
\<close>

definition admitted :: "MockAPIConfig \<Rightarrow> (string \<times> real) list \<Rightarrow> string \<Rightarrow> real list" where
  "admitted config es client_ip =
     map (\<lambda>(e, limited). snd e)
       (filter (\<lambda>(e, limited). fst e = client_ip \<and> \<not> limited)
         (zip es (fst (serve config es Map.empty))))"

text \<open>The pruning step of \<open>is_rate_limited\<close>, named for the proofs.\<close>

definition kept_of :: "MockAPIConfig \<Rightarrow> real \<Rightarrow> real list \<Rightarrow> real list" where
  "kept_of config now xs = filter (\<lambda>t. now - real_of_int (rate_limit_window config) < t) xs"

text \<open>A small configuration for the examples: two requests per hour.\<close>

definition cfg2 :: MockAPIConfig where
  "cfg2 = \<lparr>response_delay_min = 0, response_delay_max = 0, failure_rate = 0,
           rate_limit_requests = 2, rate_limit_window = 3600\<rparr>"


section \<open>Python values and objects\<close>

text \<open>
  The fixtures are what \<open>json.load\<close> builds: scalars, and dict and list objects that
  hold other values. Dicts and lists are mutable objects with an identity, and the
  program keeps several references to one object (\<open>dict.copy()\<close> copies the top-level
  dict only), so they live in a heap: a list of objects, an address being an index.
  A dict is the list of its items in insertion order; a JSON number is an int or a
  float (a real number here).
\<close>

type_synonym addr = nat

datatype pyval = PNone | PBool bool | PInt int | PFloat real | PStr string | PRef addr

datatype pyobj = PyDict "(string \<times> pyval) list" | PyList "pyval list"

type_synonym heap = "pyobj list"

text \<open>
  The state the response generator works on: the heap, and how many numbers
  \<open>random.randint\<close> has drawn so far.
\<close>

record world =
  objs :: heap
  draws :: nat

text \<open>
  Exceptions. \<open>RecursionError\<close> is what Python raises when the nesting of calls exceeds
  the interpreter's limit; the recursive functions below take the number of nested
  calls still allowed as their first argument. \<open>BadHeap\<close> stands for states Python
  cannot be in (a reference to no object, a dict that lost items while it is iterated).
\<close>

datatype exn = RecursionError | AttributeError string | IndexError | BadHeap

type_synonym 'a result = "(exn + 'a) \<times> world"

definition heap_get :: "heap \<Rightarrow> addr \<Rightarrow> pyobj option" where
  "heap_get h a = (if a < length h then Some (h ! a) else None)"

definition alloc :: "pyobj \<Rightarrow> world \<Rightarrow> addr \<times> world" where
  "alloc ob w = (length (objs w), w\<lparr>objs := objs w @ [ob]\<rparr>)"

definition heap_set :: "addr \<Rightarrow> pyobj \<Rightarrow> world \<Rightarrow> world" where
  "heap_set a ob w = w\<lparr>objs := (objs w)[a := ob]\<rparr>"

fun dict_set :: "(string \<times> pyval) list \<Rightarrow> string \<Rightarrow> pyval \<Rightarrow> (string \<times> pyval) list" where
  \<comment> \<open>\<open>obj[key] = value\<close>: an existing key keeps its place\<close>
  "dict_set [] key v = [(key, v)]"
| "dict_set ((k, x) # kvs) key v = (if k = key then (k, v) # kvs else (k, x) # dict_set kvs key v)"

definition truthy :: "heap \<Rightarrow> pyval \<Rightarrow> bool" where
  \<comment> \<open>the truth value Python gives a value in \<open>... and value\<close>\<close>
  "truthy h v =
     (case v of
        PNone \<Rightarrow> False
      | PBool b \<Rightarrow> b
      | PInt i \<Rightarrow> i \<noteq> 0
      | PFloat x \<Rightarrow> x \<noteq> 0
      | PStr s \<Rightarrow> s \<noteq> []
      | PRef a \<Rightarrow>
          (case heap_get h a of
             Some (PyDict kvs) \<Rightarrow> kvs \<noteq> []
           | Some (PyList xs) \<Rightarrow> xs \<noteq> []
           | None \<Rightarrow> True))"

definition is_container :: "pyval \<Rightarrow> bool" where
  \<comment> \<open>\<open>isinstance(value, (dict, list))\<close>\<close>
  "is_container v = (case v of PRef a \<Rightarrow> True | _ \<Rightarrow> False)"

definition type_name :: "pyval \<Rightarrow> string" where
  "type_name v =
     (case v of PNone \<Rightarrow> ''NoneType'' | PBool b \<Rightarrow> ''bool'' | PInt i \<Rightarrow> ''int''
      | PFloat x \<Rightarrow> ''float'' | PStr s \<Rightarrow> ''str'' | PRef a \<Rightarrow> ''object'')"

subsection \<open>Loops\<close>

text \<open>
  \<open>for item in xs\<close> over a list that the body does not change, and the loop over the
  items of a dict by position, reading the dict anew at every step as Python's live
  view does. An exception ends the loop.
\<close>

fun for_each :: "('a \<Rightarrow> world \<Rightarrow> unit result) \<Rightarrow> 'a list \<Rightarrow> world \<Rightarrow> unit result" where
  "for_each body [] w = (Inr (), w)"
| "for_each body (x # xs) w =
     (case body x w of
        (Inl e, w') \<Rightarrow> (Inl e, w')
      | (Inr u, w') \<Rightarrow> for_each body xs w')"

fun for_range :: "(nat \<Rightarrow> world \<Rightarrow> unit result) \<Rightarrow> nat \<Rightarrow> nat \<Rightarrow> world \<Rightarrow> unit result" where
  \<comment> \<open>\<open>for_range body i k\<close> runs the body at the positions \<open>i, ..., i + k - 1\<close>\<close>
  "for_range body i 0 w = (Inr (), w)"
| "for_range body i (Suc k) w =
     (case body i w of
        (Inl e, w') \<Rightarrow> (Inl e, w')
      | (Inr u, w') \<Rightarrow> for_range body (Suc i) k w')"

subsection \<open>Decimal numerals and random identifiers\<close>

definition digit_char :: "nat \<Rightarrow> char" where
  "digit_char d = ''0123456789'' ! (d mod 10)"

fun str_nat :: "nat \<Rightarrow> string" where
  "str_nat n = (if n < 10 then [digit_char n] else str_nat (n div 10) @ [digit_char (n mod 10)])"

declare str_nat.simps [simp del]

definition str_int :: "int \<Rightarrow> string" where
  "str_int i = (if i < 0 then ''-'' @ str_nat (nat (- i)) else str_nat (nat i))"

definition randint :: "nat \<Rightarrow> nat \<Rightarrow> nat \<Rightarrow> nat" where
  \<comment> \<open>\<open>random.randint(lo, hi)\<close> computed from a raw random number: any value from \<open>lo\<close> to \<open>hi\<close>\<close>
  "randint lo hi raw = lo + raw mod (hi - lo + 1)"

text \<open>
  What the handler reads from outside while it serves one request, and the library
  functions whose text is not modelled: the raw random numbers behind
  \<open>random.randint\<close> (by number of the draw), the text \<open>json.dumps(data, indent=2)\<close>
  renders for a document, and \<open>str(e)\<close> of an exception.
\<close>

datatype json = JNull | JBool bool | JInt int | JFloat real | JStr string
  | JObj "(string \<times> json) list" | JArr "json list"

record env =
  rand :: "nat \<Rightarrow> nat"
  dumps_text :: "json \<Rightarrow> string"
  exn_text :: "exn \<Rightarrow> string"

record readings =
  delay_draw :: real
  t_limit :: real
  failure_draw :: real
  failure_choice :: nat
  utcnow :: string
  t_info :: real

section \<open>Mock response generator\<close>

definition timestamp_keys :: "string list" where
  "timestamp_keys = [''timestamp'', ''created'', ''started'', ''finished'']"

definition ut_item ::
  "(pyval \<Rightarrow> world \<Rightarrow> unit result) \<Rightarrow> string \<Rightarrow> addr \<Rightarrow> nat \<Rightarrow> world \<Rightarrow> unit result" where
  \<comment> \<open>the body of the loop of \<open>update_timestamps\<close> over \<open>obj.items()\<close>, at position \<open>i\<close>\<close>
  "ut_item rec timestamp a i w =
     (case heap_get (objs w) a of
        Some (PyDict kvs) \<Rightarrow>
          if i < length kvs then
            (let key = fst (kvs ! i); value = snd (kvs ! i)
             in if key \<in> set timestamp_keys \<and> truthy (objs w) value
                then (Inr (), heap_set a (PyDict (dict_set kvs key (PStr timestamp))) w)
                else if is_container value then rec value w
                else (Inr (), w))
          else (Inl BadHeap, w)
      | _ \<Rightarrow> (Inl BadHeap, w))"

primrec update_timestamps :: "nat \<Rightarrow> string \<Rightarrow> pyval \<Rightarrow> world \<Rightarrow> unit result" where
  "update_timestamps 0 timestamp obj w = (Inl RecursionError, w)"
| "update_timestamps (Suc n) timestamp obj w =
     (case obj of
        PRef a \<Rightarrow>
          (case heap_get (objs w) a of
             Some (PyDict kvs) \<Rightarrow>
               for_range (ut_item (update_timestamps n timestamp) timestamp a) 0 (length kvs) w
           | Some (PyList xs) \<Rightarrow> for_each (update_timestamps n timestamp) xs w
           | None \<Rightarrow> (Inl BadHeap, w))
      | _ \<Rightarrow> (Inr (), w))"

definition request_id_of :: "env \<Rightarrow> nat \<Rightarrow> string" where
  \<comment> \<open>\<open>f"req_{random.randint(100000, 999999)}"\<close>, at the draw number \<open>k\<close>\<close>
  "request_id_of e k = ''req_'' @ str_nat (randint 100000 999999 (rand e k))"

definition ur_item ::
  "(pyval \<Rightarrow> world \<Rightarrow> unit result) \<Rightarrow> env \<Rightarrow> addr \<Rightarrow> nat \<Rightarrow> world \<Rightarrow> unit result" where
  \<comment> \<open>the body of the loop of \<open>update_request_id\<close> over \<open>obj.items()\<close>, at position \<open>i\<close>\<close>
  "ur_item rec e a i w =
     (case heap_get (objs w) a of
        Some (PyDict kvs) \<Rightarrow>
          if i < length kvs then
            (let key = fst (kvs ! i); value = snd (kvs ! i)
             in if key = ''request_id''
                then (Inr (), heap_set a (PyDict (dict_set kvs key (PStr (request_id_of e (draws w)))))
                                (w\<lparr>draws := Suc (draws w)\<rparr>))
                else if is_container value then rec value w
                else (Inr (), w))
          else (Inl BadHeap, w)
      | _ \<Rightarrow> (Inl BadHeap, w))"

primrec update_request_id :: "nat \<Rightarrow> env \<Rightarrow> pyval \<Rightarrow> world \<Rightarrow> unit result" where
  "update_request_id 0 e obj w = (Inl RecursionError, w)"
| "update_request_id (Suc n) e obj w =
     (case obj of
        PRef a \<Rightarrow>
          (case heap_get (objs w) a of
             Some (PyDict kvs) \<Rightarrow> for_range (ur_item (update_request_id n e) e a) 0 (length kvs) w
           | Some (PyList xs) \<Rightarrow> for_each (update_request_id n e) xs w
           | None \<Rightarrow> (Inl BadHeap, w))
      | _ \<Rightarrow> (Inr (), w))"

definition du_item ::
  "(pyval \<Rightarrow> world \<Rightarrow> unit result) \<Rightarrow> addr \<Rightarrow> nat \<Rightarrow> world \<Rightarrow> unit result" where
  \<comment> \<open>the body of the loop of \<open>deep_update\<close> over \<open>obj.values()\<close>, at position \<open>i\<close>\<close>
  "du_item rec a i w =
     (case heap_get (objs w) a of
        Some (PyDict kvs) \<Rightarrow>
          if i < length kvs then
            (let v = snd (kvs ! i) in if is_container v then rec v w else (Inr (), w))
          else (Inl BadHeap, w)
      | _ \<Rightarrow> (Inl BadHeap, w))"

primrec deep_update :: "nat \<Rightarrow> string \<Rightarrow> pyval \<Rightarrow> pyval \<Rightarrow> world \<Rightarrow> unit result" where
  "deep_update 0 key value obj w = (Inl RecursionError, w)"
| "deep_update (Suc n) key value obj w =
     (case obj of
        PRef a \<Rightarrow>
          (case heap_get (objs w) a of
             Some (PyDict kvs) \<Rightarrow>
               (let w1 = (if key \<in> set (map fst kvs)
                          then heap_set a (PyDict (dict_set kvs key value)) w else w)
                in for_range (du_item (deep_update n key value) a) 0 (length kvs) w1)
           | Some (PyList xs) \<Rightarrow> for_each (\<lambda>item. deep_update n key value item) xs w
           | None \<Rightarrow> (Inl BadHeap, w))
      | _ \<Rightarrow> (Inr (), w))"

definition customize_response ::
  "nat \<Rightarrow> env \<Rightarrow> string \<Rightarrow> pyval \<Rightarrow> (string \<times> pyval) list \<Rightarrow> world \<Rightarrow> pyval result" where
  \<comment> \<open>\<open>utc\<close> is \<open>datetime.utcnow().isoformat()\<close>; \<open>kwargs\<close> are the overrides, in call order\<close>
  "customize_response fuel e utc response kwargs w =
     (let now = utc @ ''+00:00'' in
      case update_timestamps fuel now response w of
        (Inl x, w1) \<Rightarrow> (Inl x, w1)
      | (Inr u, w1) \<Rightarrow>
          (case update_request_id fuel e response w1 of
             (Inl x, w2) \<Rightarrow> (Inl x, w2)
           | (Inr u, w2) \<Rightarrow>
               (case for_each (\<lambda>(key, value). deep_update fuel key value response) kwargs w2 of
                  (Inl x, w3) \<Rightarrow> (Inl x, w3)
                | (Inr u, w3) \<Rightarrow> (Inr response, w3))))"

definition generate_error_response ::
  "env \<Rightarrow> string \<Rightarrow> int \<Rightarrow> string \<Rightarrow> string \<Rightarrow> world \<Rightarrow> pyval \<times> world" where
  "generate_error_response e utc status_code error_code message w =
     (let (a_error, w1) = alloc (PyDict [(''code'', PStr error_code),
                                         (''message'', PStr message),
                                         (''status_code'', PInt status_code)]) w;
          request_id = ''req_error_'' @ str_nat (randint 100000 999999 (rand e (draws w1)));
          w2 = w1\<lparr>draws := Suc (draws w1)\<rparr>;
          (a_meta, w3) = alloc (PyDict [(''request_id'', PStr request_id),
                                        (''timestamp'', PStr (utc @ ''+00:00'')),
                                        (''api_version'', PStr ''v1'')]) w2;
          (a, w4) = alloc (PyDict [(''error'', PRef a_error), (''meta'', PRef a_meta)]) w3
      in (PRef a, w4))"

text \<open>
  \<open>self.responses\<close>: provider name to scenario name to the loaded document, both dicts
  in the order \<open>os.listdir\<close> gave. Nothing assigns to these two levels after loading,
  so they are association lists outside the heap; the documents are heap values.
\<close>

type_synonym responses = "(string \<times> (string \<times> pyval) list) list"

definition copy_obj :: "pyval \<Rightarrow> world \<Rightarrow> pyval result" where
  \<comment> \<open>\<open>value.copy()\<close>: a new dict or list with the same items; scalars have no such method\<close>
  "copy_obj v w =
     (case v of
        PRef a \<Rightarrow>
          (case heap_get (objs w) a of
             Some ob \<Rightarrow> (let (a', w') = alloc ob w in (Inr (PRef a'), w'))
           | None \<Rightarrow> (Inl BadHeap, w))
      | _ \<Rightarrow> (Inl (AttributeError (type_name v)), w))"

definition get_response ::
  "nat \<Rightarrow> env \<Rightarrow> string \<Rightarrow> responses \<Rightarrow> string \<Rightarrow> string \<Rightarrow> (string \<times> pyval) list
     \<Rightarrow> world \<Rightarrow> pyval result" where
  "get_response fuel e utc responses provider scenario kwargs w =
     (case map_of responses provider of
        None \<Rightarrow>
          (let (r, w') = generate_error_response e utc 404 ''provider_not_found''
                           (''Provider '' @ [CHR 0x27] @ provider @ [CHR 0x27] @ '' not supported'') w
           in (Inr r, w'))
      | Some scenarios \<Rightarrow>
          (case map_of scenarios scenario of
             None \<Rightarrow>
               (let (r, w') = generate_error_response e utc 404 ''scenario_not_found''
                                (''Scenario '' @ [CHR 0x27] @ scenario @ [CHR 0x27]
                                   @ '' not found for provider '' @ [CHR 0x27] @ provider @ [CHR 0x27]) w
                in (Inr r, w'))
           | Some stored \<Rightarrow>
               (case copy_obj stored w of
                  (Inl x, w1) \<Rightarrow> (Inl x, w1)
                | (Inr response, w1) \<Rightarrow> customize_response fuel e utc response kwargs w1)))"

subsection \<open>Documents\<close>

text \<open>
  \<open>json_dumps\<close> reads the document a value stands for out of the heap, as
  \<open>json.dumps\<close> walks it; \<open>load_json\<close> builds the objects of a document, as
  \<open>json.load\<close> does (every dict and list a new object).
\<close>

fun collect :: "(exn + 'a) list \<Rightarrow> exn + 'a list" where
  "collect [] = Inr []"
| "collect (Inl x # rs) = Inl x"
| "collect (Inr v # rs) = (case collect rs of Inl x \<Rightarrow> Inl x | Inr vs \<Rightarrow> Inr (v # vs))"

primrec json_dumps :: "nat \<Rightarrow> heap \<Rightarrow> pyval \<Rightarrow> exn + json" where
  "json_dumps 0 h v = Inl RecursionError"
| "json_dumps (Suc n) h v =
     (case v of
        PNone \<Rightarrow> Inr JNull
      | PBool b \<Rightarrow> Inr (JBool b)
      | PInt i \<Rightarrow> Inr (JInt i)
      | PFloat x \<Rightarrow> Inr (JFloat x)
      | PStr s \<Rightarrow> Inr (JStr s)
      | PRef a \<Rightarrow>
          (case heap_get h a of
             Some (PyDict kvs) \<Rightarrow>
               (case collect (map (\<lambda>kv. json_dumps n h (snd kv)) kvs) of
                  Inl x \<Rightarrow> Inl x
                | Inr ts \<Rightarrow> Inr (JObj (zip (map fst kvs) ts)))
           | Some (PyList xs) \<Rightarrow>
               (case collect (map (json_dumps n h) xs) of
                  Inl x \<Rightarrow> Inl x
                | Inr ts \<Rightarrow> Inr (JArr ts))
           | None \<Rightarrow> Inl BadHeap))"

fun load_json :: "json \<Rightarrow> heap \<Rightarrow> pyval \<times> heap"
  and load_fields :: "(string \<times> json) list \<Rightarrow> heap \<Rightarrow> (string \<times> pyval) list \<times> heap"
  and load_items :: "json list \<Rightarrow> heap \<Rightarrow> pyval list \<times> heap" where
  "load_json JNull h = (PNone, h)"
| "load_json (JBool b) h = (PBool b, h)"
| "load_json (JInt i) h = (PInt i, h)"
| "load_json (JFloat x) h = (PFloat x, h)"
| "load_json (JStr s) h = (PStr s, h)"
| "load_json (JObj fs) h = (let (kvs, h1) = load_fields fs h in (PRef (length h1), h1 @ [PyDict kvs]))"
| "load_json (JArr ts) h = (let (vs, h1) = load_items ts h in (PRef (length h1), h1 @ [PyList vs]))"
| "load_fields [] h = ([], h)"
| "load_fields ((k, t) # fs) h =
     (let (v, h1) = load_json t h; (kvs, h2) = load_fields fs h1 in ((k, v) # kvs, h2))"
| "load_items [] h = ([], h)"
| "load_items (t # ts) h =
     (let (v, h1) = load_json t h; (vs, h2) = load_items ts h1 in (v # vs, h2))"

section \<open>HTTP request handler\<close>

text \<open>
  A request as the handler sees it: the client address, the path component of the
  URL (\<open>urlparse(self.path).path\<close>) and the parsed query (\<open>parse_qs\<close>: a dict from a
  parameter name to the list of its values). A response is the status line, the
  headers the handler sends itself, in order, and the document whose rendering is
  the body.
\<close>

datatype http_method = GET | POST | PUT | DELETE

record request =
  client_address :: string
  url_path :: string
  url_query :: "string \<rightharpoonup> string list"

record response =
  status :: int
  headers :: "(string \<times> string) list"
  body :: json

definition strip_slashes :: "string \<Rightarrow> string" where
  \<comment> \<open>\<open>s.strip('/')\<close>\<close>
  "strip_slashes s =
     rev (dropWhile (\<lambda>c. c = CHR ''/'') (rev (dropWhile (\<lambda>c. c = CHR ''/'') s)))"

fun split_on :: "char \<Rightarrow> string \<Rightarrow> string list" where
  \<comment> \<open>\<open>s.split(sep)\<close> for a one-character separator\<close>
  "split_on sep [] = [[]]"
| "split_on sep (c # cs) =
     (if c = sep then [] # split_on sep cs
      else (case split_on sep cs of [] \<Rightarrow> [[c]] | p # ps \<Rightarrow> (c # p) # ps))"

definition send_json_response ::
  "nat \<Rightarrow> MockAPIConfig \<Rightarrow> env \<Rightarrow> readings \<Rightarrow> string \<Rightarrow> RateLimiter \<Rightarrow> int \<Rightarrow> pyval \<Rightarrow> world
     \<Rightarrow> exn + response" where
  "send_json_response fuel config e rd client_ip requests status_code data w =
     (case json_dumps fuel (objs w) data of
        Inl x \<Rightarrow> Inl x
      | Inr doc \<Rightarrow>
          (let response_data = dumps_text e doc;
               rate_info = get_rate_limit_info config (t_info rd) client_ip requests
           in Inr \<lparr>status = status_code,
                   headers =
                     [(''Content-Type'', ''application/json''),
                      (''Content-Length'', str_nat (length response_data)),
                      (''X-RateLimit-Limit'', str_int (limit rate_info)),
                      (''X-RateLimit-Remaining'', str_int (remaining rate_info)),
                      (''X-RateLimit-Reset'', str_int (reset rate_info)),
                      (''Access-Control-Allow-Origin'', ''*''),
                      (''Access-Control-Allow-Methods'', ''GET, POST, PUT, DELETE, OPTIONS''),
                      (''Access-Control-Allow-Headers'', ''Content-Type, Authorization'')],
                   body = doc\<rparr>))"

definition handle_test_scenarios ::
  "responses \<Rightarrow> string \<Rightarrow> (string \<rightharpoonup> string list) \<Rightarrow> world \<Rightarrow> pyval \<times> world" where
  "handle_test_scenarios responses provider query_params w =
     (let scenarios = (case map_of responses provider of None \<Rightarrow> [] | Some ss \<Rightarrow> ss);
          (a_available, w1) = alloc (PyList (map (\<lambda>kv. PStr (fst kv)) scenarios)) w;
          (a_examples, w2) = alloc (PyList
             [PStr (''/'' @ provider @ ''/servers?scenario=rate-limit-exceeded''),
              PStr (''/'' @ provider @ ''/servers?scenario=quota-exceeded''),
              PStr (''/'' @ provider @ ''/servers?scenario=auth-failed'')]) w1;
          (a, w3) = alloc (PyDict
             [(''provider'', PStr provider),
              (''available_scenarios'', PRef a_available),
              (''usage'', PStr ''Add ?scenario=<scenario_name> to test specific scenarios''),
              (''examples'', PRef a_examples)]) w2
      in (PRef a, w3))"

definition scenario_map :: "(string \<times> string) list" where
  "scenario_map =
     [(''servers'', ''success-create-server''),
      (''instances'', ''success-create-server''),
      (''droplets'', ''success-create-server''),
      (''create-server'', ''success-create-server''),
      (''list-servers'', ''success-list-servers''),
      (''server-status'', ''success-server-status'')]"

definition route_request ::
  "nat \<Rightarrow> env \<Rightarrow> string \<Rightarrow> responses \<Rightarrow> string \<Rightarrow> string \<Rightarrow> http_method
     \<Rightarrow> (string \<rightharpoonup> string list) \<Rightarrow> world \<Rightarrow> pyval result" where
  "route_request fuel e utc responses provider action method query_params w =
     (if action = ''test-scenarios''
      then (let (r, w') = handle_test_scenarios responses provider query_params w in (Inr r, w'))
      else
        (let scenario = (case map_of scenario_map action of
                           None \<Rightarrow> ''success-create-server'' | Some s \<Rightarrow> s)
         in case query_params ''scenario'' of
              None \<Rightarrow> get_response fuel e utc responses provider scenario [] w
            | Some [] \<Rightarrow> (Inl IndexError, w)
            | Some (first # others) \<Rightarrow> get_response fuel e utc responses provider first [] w))"

definition send_rate_limit_response ::
  "nat \<Rightarrow> MockAPIConfig \<Rightarrow> env \<Rightarrow> readings \<Rightarrow> responses \<Rightarrow> string \<Rightarrow> RateLimiter \<Rightarrow> world
     \<Rightarrow> response option \<times> world" where
  \<comment> \<open>an exception raised here is not caught by the handler: no response is written\<close>
  "send_rate_limit_response fuel config e rd responses client_ip requests w =
     (case get_response fuel e (utcnow rd) responses ''hetzner'' ''rate-limit-exceeded'' [] w of
        (Inl x, w1) \<Rightarrow> (None, w1)
      | (Inr resp, w1) \<Rightarrow>
          (case send_json_response fuel config e rd client_ip requests 429 resp w1 of
             Inl x \<Rightarrow> (None, w1)
           | Inr r \<Rightarrow> (Some r, w1)))"

definition failures :: "(int \<times> string \<times> string) list" where
  "failures =
     [(500, ''internal_server_error'', ''Internal server error occurred''),
      (503, ''service_unavailable'', ''Service temporarily unavailable''),
      (502, ''bad_gateway'', ''Bad gateway error''),
      (504, ''gateway_timeout'', ''Gateway timeout'')]"

definition send_random_failure_response ::
  "nat \<Rightarrow> MockAPIConfig \<Rightarrow> env \<Rightarrow> readings \<Rightarrow> string \<Rightarrow> RateLimiter \<Rightarrow> world
     \<Rightarrow> response option \<times> world" where
  "send_random_failure_response fuel config e rd client_ip requests w =
     (let (status_code, error_code, message) = failures ! (failure_choice rd mod length failures);
          (resp, w1) = generate_error_response e (utcnow rd) status_code error_code message w
      in case send_json_response fuel config e rd client_ip requests status_code resp w1 of
           Inl x \<Rightarrow> (None, w1)
         | Inr r \<Rightarrow> (Some r, w1))"

definition on_exception ::
  "nat \<Rightarrow> MockAPIConfig \<Rightarrow> env \<Rightarrow> readings \<Rightarrow> string \<Rightarrow> RateLimiter \<Rightarrow> exn \<Rightarrow> world
     \<Rightarrow> response option \<times> (RateLimiter \<times> world)" where
  \<comment> \<open>the \<open>except Exception as e\<close> block of \<open>handle_request\<close>\<close>
  "on_exception fuel config e rd client_ip requests x w =
     (let (a, w1) = alloc (PyDict
            [(''error'', PStr ''Internal server error''),
             (''message'', PStr (exn_text e x))]) w
      in case send_json_response fuel config e rd client_ip requests 500 (PRef a) w1 of
           Inl y \<Rightarrow> (None, (requests, w1))
         | Inr r \<Rightarrow> (Some r, (requests, w1)))"

definition handle_request ::
  "nat \<Rightarrow> MockAPIConfig \<Rightarrow> env \<Rightarrow> responses \<Rightarrow> http_method \<Rightarrow> request \<Rightarrow> readings
     \<Rightarrow> RateLimiter \<times> world \<Rightarrow> response option \<times> (RateLimiter \<times> world)" where
  \<comment> \<open>the sleep of \<open>delay_draw rd\<close> seconds changes nothing the model keeps\<close>
  "handle_request fuel config e responses method req rd s =
     (let requests = fst s; w = snd s;
          client_ip = client_address req;
          (limited, requests1) = is_rate_limited config (t_limit rd) client_ip requests
      in if limited then
           (let (r, w1) = send_rate_limit_response fuel config e rd responses client_ip requests1 w
            in (r, (requests1, w1)))
         else if failure_draw rd < failure_rate config then
           (let (r, w1) = send_random_failure_response fuel config e rd client_ip requests1 w
            in (r, (requests1, w1)))
         else
           (let path_parts = split_on CHR ''/'' (strip_slashes (url_path req))
            in if length path_parts \<ge> 2 then
                 (let provider = path_parts ! 0; action = path_parts ! 1
                  in case route_request fuel e (utcnow rd) responses provider action method
                            (url_query req) w of
                       (Inl x, w1) \<Rightarrow> on_exception fuel config e rd client_ip requests1 x w1
                     | (Inr resp, w1) \<Rightarrow>
                         (case send_json_response fuel config e rd client_ip requests1 200 resp w1 of
                            Inl x \<Rightarrow> on_exception fuel config e rd client_ip requests1 x w1
                          | Inr r \<Rightarrow> (Some r, (requests1, w1))))
               else
                 (let (a, w1) = alloc (PyDict
                        [(''error'', PStr ''Invalid API endpoint''),
                         (''message'', PStr ''Expected format: /{provider}/{action}'')]) w
                  in case send_json_response fuel config e rd client_ip requests1 404 (PRef a) w1 of
                       Inl x \<Rightarrow> on_exception fuel config e rd client_ip requests1 x w1
                     | Inr r \<Rightarrow> (Some r, (requests1, w1)))))"

section \<open>Documents the specification names\<close>

text \<open>
  The error envelope \<open>generate_error_response\<close> builds, as a document; \<open>k\<close> is the
  number of the random draw its request id uses.
\<close>

definition error_envelope :: "env \<Rightarrow> string \<Rightarrow> nat \<Rightarrow> int \<Rightarrow> string \<Rightarrow> string \<Rightarrow> json" where
  "error_envelope e utc k status_code error_code message =
     JObj [(''error'', JObj [(''code'', JStr error_code),
                             (''message'', JStr message),
                             (''status_code'', JInt status_code)]),
           (''meta'', JObj [(''request_id'',
                               JStr (''req_error_'' @ str_nat (randint 100000 999999 (rand e k)))),
                            (''timestamp'', JStr (utc @ ''+00:00'')),
                            (''api_version'', JStr ''v1'')])]"


text \<open>The headers \<open>send_json_response\<close> sends with a document.\<close>

definition std_headers :: "MockAPIConfig \<Rightarrow> env \<Rightarrow> readings \<Rightarrow> string \<Rightarrow> RateLimiter \<Rightarrow> json
    \<Rightarrow> (string \<times> string) list" where
  "std_headers config e rd client_ip requests doc =
     [(''Content-Type'', ''application/json''),
      (''Content-Length'', str_nat (length (dumps_text e doc))),
      (''X-RateLimit-Limit'', str_int (limit (get_rate_limit_info config (t_info rd) client_ip requests))),
      (''X-RateLimit-Remaining'', str_int (remaining (get_rate_limit_info config (t_info rd) client_ip requests))),
      (''X-RateLimit-Reset'', str_int (reset (get_rate_limit_info config (t_info rd) client_ip requests))),
      (''Access-Control-Allow-Origin'', ''*''),
      (''Access-Control-Allow-Methods'', ''GET, POST, PUT, DELETE, OPTIONS''),
      (''Access-Control-Allow-Headers'', ''Content-Type, Authorization'')]"

text \<open>Inputs for the examples.\<close>

definition env0 :: env where
  "env0 = \<lparr>rand = (\<lambda>k. 7 * k + 3), dumps_text = (\<lambda>d. ''{}''), exn_text = (\<lambda>x. ''error'')\<rparr>"

definition rd0 :: readings where
  "rd0 = \<lparr>delay_draw = 1 / 2, t_limit = 10, failure_draw = 1 / 2, failure_choice = 0,
           utcnow = ''2026-01-01T00:00:00'', t_info = 10\<rparr>"

definition w0 :: world where
  "w0 = \<lparr>objs = [], draws = 0\<rparr>"

definition doc1 :: json where
  "doc1 = JObj [(''status'', JStr ''ok''), (''created'', JStr ''2020''),
     (''meta'', JObj [(''request_id'', JStr ''req_1''), (''timestamp'', JStr ''2020''),
                      (''finished'', JNull)])]"

definition responses1 :: responses where
  "responses1 = [(''hetzner'', [(''success-create-server'', fst (load_json doc1 []))])]"

definition world1 :: world where
  "world1 = \<lparr>objs = snd (load_json doc1 []), draws = 0\<rparr>"

definition req_invalid :: request where
  "req_invalid = \<lparr>client_address = ''10.0.0.1'', url_path = ''/x'', url_query = Map.empty\<rparr>"

definition req_quota :: request where
  "req_quota = \<lparr>client_address = ''10.0.0.1'', url_path = ''/aws/instances'',
                 url_query = [''scenario'' \<mapsto> [''quota-exceeded'']]\<rparr>"

definition req_unknown :: request where
  "req_unknown = \<lparr>client_address = ''10.0.0.1'', url_path = ''/doesnotexist/servers'',
                   url_query = Map.empty\<rparr>"

section \<open>Documents in the heap\<close>

text \<open>
  The number of nested calls a walk over a document needs: one for a scalar, one more
  than its deepest member for an object or an array.
\<close>

fun height :: "json \<Rightarrow> nat"
  and height_fields :: "(string \<times> json) list \<Rightarrow> nat"
  and height_items :: "json list \<Rightarrow> nat" where
  "height (JObj fs) = Suc (height_fields fs)"
| "height (JArr ts) = Suc (height_items ts)"
| "height JNull = 1"
| "height (JBool b) = 1"
| "height (JInt i) = 1"
| "height (JFloat x) = 1"
| "height (JStr s) = 1"
| "height_fields [] = 0"
| "height_fields (f # fs) = max (height (snd f)) (height_fields fs)"
| "height_items [] = 0"
| "height_items (t # ts) = max (height t) (height_items ts)"

text \<open>
  \<open>repr h v t\<close>: in the heap \<open>h\<close> the value \<open>v\<close> stands for the document \<open>t\<close>, and does
  so as a tree, the way \<open>json.load\<close> builds it and the way the program keeps it: every
  dict has distinct keys and no dict or list is reached twice. \<open>fp h v t\<close> is the set
  of the addresses of the dicts and lists of that tree.
\<close>

fun fp :: "heap \<Rightarrow> pyval \<Rightarrow> json \<Rightarrow> addr set"
  and fp_fields :: "heap \<Rightarrow> (string \<times> pyval) list \<Rightarrow> (string \<times> json) list \<Rightarrow> addr set"
  and fp_items :: "heap \<Rightarrow> pyval list \<Rightarrow> json list \<Rightarrow> addr set" where
  "fp h v (JObj fs) =
     (case v of
        PRef a \<Rightarrow> (case heap_get h a of
                     Some (PyDict kvs) \<Rightarrow> insert a (fp_fields h kvs fs)
                   | _ \<Rightarrow> {})
      | _ \<Rightarrow> {})"
| "fp h v (JArr ts) =
     (case v of
        PRef a \<Rightarrow> (case heap_get h a of
                     Some (PyList xs) \<Rightarrow> insert a (fp_items h xs ts)
                   | _ \<Rightarrow> {})
      | _ \<Rightarrow> {})"
| "fp h v JNull = {}"
| "fp h v (JBool b) = {}"
| "fp h v (JInt i) = {}"
| "fp h v (JFloat x) = {}"
| "fp h v (JStr s) = {}"
| "fp_fields h kvs [] = {}"
| "fp_fields h kvs (f # fs) =
     (case kvs of [] \<Rightarrow> {} | kv # kvs' \<Rightarrow> fp h (snd kv) (snd f) \<union> fp_fields h kvs' fs)"
| "fp_items h xs [] = {}"
| "fp_items h xs (t # ts) =
     (case xs of [] \<Rightarrow> {} | x # xs' \<Rightarrow> fp h x t \<union> fp_items h xs' ts)"

fun repr :: "heap \<Rightarrow> pyval \<Rightarrow> json \<Rightarrow> bool"
  and repr_fields :: "heap \<Rightarrow> (string \<times> pyval) list \<Rightarrow> (string \<times> json) list \<Rightarrow> bool"
  and repr_items :: "heap \<Rightarrow> pyval list \<Rightarrow> json list \<Rightarrow> bool" where
  "repr h v (JObj fs) =
     (case v of
        PRef a \<Rightarrow> (case heap_get h a of
                     Some (PyDict kvs) \<Rightarrow>
                       distinct (map fst kvs) \<and> a \<notin> fp_fields h kvs fs \<and> repr_fields h kvs fs
                   | _ \<Rightarrow> False)
      | _ \<Rightarrow> False)"
| "repr h v (JArr ts) =
     (case v of
        PRef a \<Rightarrow> (case heap_get h a of
                     Some (PyList xs) \<Rightarrow> a \<notin> fp_items h xs ts \<and> repr_items h xs ts
                   | _ \<Rightarrow> False)
      | _ \<Rightarrow> False)"
| "repr h v JNull = (v = PNone)"
| "repr h v (JBool b) = (v = PBool b)"
| "repr h v (JInt i) = (v = PInt i)"
| "repr h v (JFloat x) = (v = PFloat x)"
| "repr h v (JStr s) = (v = PStr s)"
| "repr_fields h kvs [] = (kvs = [])"
| "repr_fields h kvs (f # fs) =
     (case kvs of
        [] \<Rightarrow> False
      | kv # kvs' \<Rightarrow>
          fst kv = fst f \<and> repr h (snd kv) (snd f)
          \<and> fp h (snd kv) (snd f) \<inter> fp_fields h kvs' fs = {}
          \<and> repr_fields h kvs' fs)"
| "repr_items h xs [] = (xs = [])"
| "repr_items h xs (t # ts) =
     (case xs of
        [] \<Rightarrow> False
      | x # xs' \<Rightarrow>
          repr h x t \<and> fp h x t \<inter> fp_items h xs' ts = {} \<and> repr_items h xs' ts)"

text \<open>Python's truth value of the value a document stands for.\<close>

definition jtruthy :: "json \<Rightarrow> bool" where
  "jtruthy t =
     (case t of
        JNull \<Rightarrow> False
      | JBool b \<Rightarrow> b
      | JInt i \<Rightarrow> i \<noteq> 0
      | JFloat x \<Rightarrow> x \<noteq> 0
      | JStr s \<Rightarrow> s \<noteq> []
      | JObj fs \<Rightarrow> fs \<noteq> []
      | JArr ts \<Rightarrow> ts \<noteq> [])"

subsection \<open>The two rewrites as one walk\<close>

text \<open>
  \<open>update_timestamps\<close> and \<open>update_request_id\<close> walk a value in the same way and differ
  in the test that decides whether a dict item is overwritten, and with which string.
  \<open>walk\<close> is that walk with the test as a parameter (the test also returns the new
  count of random draws); \<open>twalk\<close> is the same rewrite on documents. They are used to
  prove the properties of the two functions once.
\<close>

type_synonym decide = "string \<Rightarrow> pyval \<Rightarrow> world \<Rightarrow> (string \<times> nat) option"
type_synonym tdecide = "string \<Rightarrow> json \<Rightarrow> nat \<Rightarrow> (string \<times> nat) option"

definition walk_item ::
  "decide \<Rightarrow> (pyval \<Rightarrow> world \<Rightarrow> unit result) \<Rightarrow> addr \<Rightarrow> nat \<Rightarrow> world \<Rightarrow> unit result" where
  "walk_item d rec a i w =
     (case heap_get (objs w) a of
        Some (PyDict kvs) \<Rightarrow>
          if i < length kvs then
            (let key = fst (kvs ! i); value = snd (kvs ! i)
             in case d key value w of
                  Some sc \<Rightarrow>
                    (Inr (), heap_set a (PyDict (dict_set kvs key (PStr (fst sc)))) (w\<lparr>draws := snd sc\<rparr>))
                | None \<Rightarrow> if is_container value then rec value w else (Inr (), w))
          else (Inl BadHeap, w)
      | _ \<Rightarrow> (Inl BadHeap, w))"

primrec walk :: "nat \<Rightarrow> decide \<Rightarrow> pyval \<Rightarrow> world \<Rightarrow> unit result" where
  "walk 0 d obj w = (Inl RecursionError, w)"
| "walk (Suc n) d obj w =
     (case obj of
        PRef a \<Rightarrow>
          (case heap_get (objs w) a of
             Some (PyDict kvs) \<Rightarrow> for_range (walk_item d (walk n d) a) 0 (length kvs) w
           | Some (PyList xs) \<Rightarrow> for_each (walk n d) xs w
           | None \<Rightarrow> (Inl BadHeap, w))
      | _ \<Rightarrow> (Inr (), w))"

fun twalk :: "tdecide \<Rightarrow> json \<Rightarrow> nat \<Rightarrow> json \<times> nat"
  and twalk_fields :: "tdecide \<Rightarrow> (string \<times> json) list \<Rightarrow> nat \<Rightarrow> (string \<times> json) list \<times> nat"
  and twalk_items :: "tdecide \<Rightarrow> json list \<Rightarrow> nat \<Rightarrow> json list \<times> nat" where
  "twalk d (JObj fs) c = (let r = twalk_fields d fs c in (JObj (fst r), snd r))"
| "twalk d (JArr ts) c = (let r = twalk_items d ts c in (JArr (fst r), snd r))"
| "twalk d JNull c = (JNull, c)"
| "twalk d (JBool b) c = (JBool b, c)"
| "twalk d (JInt i) c = (JInt i, c)"
| "twalk d (JFloat x) c = (JFloat x, c)"
| "twalk d (JStr s) c = (JStr s, c)"
| "twalk_fields d [] c = ([], c)"
| "twalk_fields d (f # fs) c =
     (case d (fst f) (snd f) c of
        Some sc \<Rightarrow>
          (let r2 = twalk_fields d fs (snd sc) in ((fst f, JStr (fst sc)) # fst r2, snd r2))
      | None \<Rightarrow>
          (let r1 = twalk d (snd f) c; r2 = twalk_fields d fs (snd r1)
           in ((fst f, fst r1) # fst r2, snd r2)))"
| "twalk_items d [] c = ([], c)"
| "twalk_items d (t # ts) c =
     (let r1 = twalk d t c; r2 = twalk_items d ts (snd r1) in (fst r1 # fst r2, snd r2))"

definition decide_ts :: "string \<Rightarrow> decide" where
  "decide_ts timestamp key value w =
     (if key \<in> set timestamp_keys \<and> truthy (objs w) value then Some (timestamp, draws w) else None)"

definition tdecide_ts :: "string \<Rightarrow> tdecide" where
  "tdecide_ts timestamp key t c =
     (if key \<in> set timestamp_keys \<and> jtruthy t then Some (timestamp, c) else None)"

definition decide_id :: "env \<Rightarrow> decide" where
  "decide_id e key value w =
     (if key = ''request_id'' then Some (request_id_of e (draws w), Suc (draws w)) else None)"

definition tdecide_id :: "env \<Rightarrow> tdecide" where
  "tdecide_id e key t c =
     (if key = ''request_id'' then Some (request_id_of e c, Suc c) else None)"

text \<open>
  The document \<open>customize_response\<close> turns a document into when it has no overrides:
  the timestamps rewritten, then the request ids, the first of them drawn at draw
  number \<open>c\<close>.
\<close>

definition customized :: "env \<Rightarrow> string \<Rightarrow> nat \<Rightarrow> json \<Rightarrow> json" where
  "customized e utc c t =
     fst (twalk (tdecide_id e) (fst (twalk (tdecide_ts (utc @ ''+00:00'')) t c)) c)"

text \<open>What a correct walk of the value \<open>v\<close>, standing for \<open>t\<close>, returns and leaves behind.\<close>

definition ok_result :: "tdecide \<Rightarrow> unit result \<Rightarrow> world \<Rightarrow> pyval \<Rightarrow> json \<Rightarrow> bool" where
  "ok_result td r w v t =
     (\<exists>w'. r = (Inr (), w')
        \<and> repr (objs w') v (fst (twalk td t (draws w)))
        \<and> fp (objs w') v (fst (twalk td t (draws w))) \<subseteq> fp (objs w) v t
        \<and> draws w' = snd (twalk td t (draws w))
        \<and> length (objs w') = length (objs w)
        \<and> (\<forall>b. b \<notin> fp (objs w) v t \<longrightarrow> objs w' ! b = objs w ! b))"

definition rec_ok :: "tdecide \<Rightarrow> (pyval \<Rightarrow> world \<Rightarrow> unit result) \<Rightarrow> nat \<Rightarrow> bool" where
  "rec_ok td rec n =
     (\<forall>v t w. repr (objs w) v t \<longrightarrow> height t \<le> n \<longrightarrow> ok_result td (rec v w) w v t)"

definition drel :: "decide \<Rightarrow> tdecide \<Rightarrow> bool" where
  "drel d td = (\<forall>k v t w. repr (objs w) v t \<longrightarrow> d k v w = td k t (draws w))"
section \<open>Properties of the rate limiter\<close>

lemma is_rate_limited_eq:
  "is_rate_limited config now c rq =
     (if rate_limit_requests config \<le> int (length (kept_of config now (recorded rq c)))
      then (True, rq(c \<mapsto> kept_of config now (recorded rq c)))
      else (False, rq(c \<mapsto> kept_of config now (recorded rq c) @ [now])))"
  by (auto simp: is_rate_limited_def recorded_def Let_def kept_of_def split: option.splits)

lemma recorded_upd: "recorded (rq(c \<mapsto> xs)) c' = (if c' = c then xs else recorded rq c')"
  by (simp add: recorded_def)

lemma recorded_is_rate_limited:
  "recorded (snd (is_rate_limited config now c' rq)) c =
     (if c = c' then
        (if fst (is_rate_limited config now c' rq) then kept_of config now (recorded rq c)
         else kept_of config now (recorded rq c) @ [now])
      else recorded rq c)"
  by (simp add: is_rate_limited_eq recorded_upd)

lemma fst_is_rate_limited:
  "fst (is_rate_limited config now c rq) =
     (rate_limit_requests config \<le> int (length (kept_of config now (recorded rq c))))"
  by (simp add: is_rate_limited_eq)

lemma serve_Cons:
  "serve config (e # es) rq =
     (fst (is_rate_limited config (snd e) (fst e) rq)
        # fst (serve config es (snd (is_rate_limited config (snd e) (fst e) rq))),
      snd (serve config es (snd (is_rate_limited config (snd e) (fst e) rq))))"
  by (cases e) (simp add: Let_def case_prod_beta)

lemma serve_append:
  "serve config (es @ es') rq =
     (fst (serve config es rq) @ fst (serve config es' (snd (serve config es rq))),
      snd (serve config es' (snd (serve config es rq))))"
  by (induction es arbitrary: rq) (simp_all add: serve_Cons del: serve.simps(2))

lemma length_serve: "length (fst (serve config es rq)) = length es"
  by (induction es arbitrary: rq) (simp_all add: serve_Cons del: serve.simps(2))

lemma serve_snoc:
  "serve config (es @ [(c, t)]) rq =
     (fst (serve config es rq) @ [fst (is_rate_limited config t c (snd (serve config es rq)))],
      snd (is_rate_limited config t c (snd (serve config es rq))))"
  by (simp add: serve_append Let_def case_prod_beta)

lemma admitted_snoc:
  "admitted config (es @ [(c', t)]) c =
     admitted config es c @
       (if c' = c \<and> \<not> fst (is_rate_limited config t c' (snd (serve config es Map.empty)))
        then [t] else [])"
  by (auto simp add: admitted_def serve_snoc length_serve)

lemma admitted_Nil: "admitted config [] c = []"
  by (simp add: admitted_def)

lemma length_filter_kept_le:
  "length (filter P (kept_of config now xs)) \<le> length (filter P xs)"
  unfolding kept_of_def by (induction xs) auto

lemma recorded_le_requests:
  "length (filter P (recorded (snd (serve config es Map.empty)) c))
     \<le> length (filter P (map snd (filter (\<lambda>e. fst e = c) es)))"
proof (induction es rule: rev_induct)
  case Nil
  show ?case by (simp add: recorded_def)
next
  case (snoc e es)
  obtain c' t where e: "e = (c', t)" by (cases e)
  let ?rq = "snd (serve config es Map.empty)"
  show ?case
  proof (cases "c' = c")
    case False
    then show ?thesis using snoc.IH
      by (simp add: e serve_snoc recorded_is_rate_limited)
  next
    case True
    have "length (filter P (kept_of config t (recorded ?rq c)))
            \<le> length (filter P (map snd (filter (\<lambda>e. fst e = c) es)))"
      using snoc.IH length_filter_kept_le [of P config t "recorded ?rq c"]
      by linarith
    then show ?thesis using True
      by (simp add: e serve_snoc recorded_is_rate_limited)
  qed
qed

lemma recorded_above:
  "\<forall>e\<in>set es. snd e - real_of_int (rate_limit_window config) \<le> \<theta> \<Longrightarrow>
   filter (\<lambda>x. \<theta> < x) (recorded (snd (serve config es Map.empty)) c)
     = filter (\<lambda>x. \<theta> < x) (admitted config es c)"
proof (induction es rule: rev_induct)
  case Nil
  show ?case by (simp add: recorded_def admitted_Nil)
next
  case (snoc e es)
  obtain c' t where e: "e = (c', t)" by (cases e)
  let ?rq = "snd (serve config es Map.empty)"
  let ?W = "real_of_int (rate_limit_window config)"
  have IH: "filter (\<lambda>x. \<theta> < x) (recorded ?rq c) = filter (\<lambda>x. \<theta> < x) (admitted config es c)"
    using snoc by simp
  have t: "t - ?W \<le> \<theta>" using snoc.prems by (simp add: e)
  have ff: "filter (\<lambda>x. \<theta> < x) (kept_of config t xs) = filter (\<lambda>x. \<theta> < x) xs" for xs
    unfolding kept_of_def using t by (induction xs) auto
  show ?case
  proof (cases "c' = c")
    case False
    then show ?thesis using IH
      by (simp add: e serve_snoc admitted_snoc recorded_is_rate_limited)
  next
    case True
    then show ?thesis using IH ff
      by (simp add: e serve_snoc admitted_snoc recorded_is_rate_limited)
  qed
qed

lemma recorded_empty: "recorded Map.empty c = []"
  by (simp add: recorded_def)

lemmas rl_eval = recorded_is_rate_limited fst_is_rate_limited kept_of_def recorded_empty
  recorded_upd serve_Cons

section \<open>Claims about the rate limiter\<close>

text \<open>
  Claim C3, as the code has it. The reported \<open>remaining\<close> is
  \<open>max(0, rate_limit_requests - n)\<close> where \<open>n\<close> is the number of instants currently
  recorded for the client, and it is never negative. \<open>get_rate_limit_info\<close> does not
  prune: the recorded instants are those left by the client's latest call of
  \<open>is_rate_limited\<close>. When the status is read at the instant of that call (and the window
  is positive), \<open>n\<close> is the number of recorded instants within the trailing window of
  that instant.
\<close>

theorem C3_remaining:
  "remaining (get_rate_limit_info config now c rq)
     = max 0 (rate_limit_requests config - int (length (recorded rq c)))
   \<and> 0 \<le> remaining (get_rate_limit_info config now c rq)
   \<and> (0 < rate_limit_window config \<longrightarrow>
        remaining (get_rate_limit_info config now c (snd (is_rate_limited config now c rq)))
          = max 0 (rate_limit_requests config
                   - int (currentWindowCount config now c (snd (is_rate_limited config now c rq)))))"
proof -
  have a: "remaining (get_rate_limit_info config now c rq')
     = max 0 (rate_limit_requests config - int (length (recorded rq' c)))" for rq'
    by (simp add: get_rate_limit_info_def Let_def)
  have "0 < rate_limit_window config \<Longrightarrow>
     filter (\<lambda>t. now - real_of_int (rate_limit_window config) < t)
        (recorded (snd (is_rate_limited config now c rq)) c)
      = recorded (snd (is_rate_limited config now c rq)) c"
    by (simp add: recorded_is_rate_limited kept_of_def)
  then show ?thesis
    by (simp add: a currentWindowCount_def)
qed

theorem C3_remaining_witness:
  "(0::int) < rate_limit_window cfg2
   \<and> remaining (get_rate_limit_info cfg2 5 ''10.0.0.1''
        (snd (is_rate_limited cfg2 5 ''10.0.0.1'' Map.empty))) = 1
   \<and> currentWindowCount cfg2 5 ''10.0.0.1'' (snd (is_rate_limited cfg2 5 ''10.0.0.1'' Map.empty)) = 1"
  using C3_remaining [of cfg2 5 "''10.0.0.1''" Map.empty]
  by (simp add: cfg2_def currentWindowCount_def get_rate_limit_info_def Let_def rl_eval)

text \<open>
  Claim C3 as stated fails once time has passed since the latest call of
  \<open>is_rate_limited\<close>. With a limit of 2 and a window of 3600 s, a client is admitted at
  0 s and at 3599.9995 s; one millisecond later, at 3600.0005 s, the request of 0 s has
  left the trailing window, so one recorded instant is within it and the claim asks for
  \<open>remaining = 1\<close>, but the limiter still counts two and reports \<open>remaining = 0\<close>.
\<close>

theorem C3_stale_count_counterexample:
  "remaining (get_rate_limit_info cfg2 (36000005 / 10000) ''10.0.0.1''
      (snd (serve cfg2 [(''10.0.0.1'', 0), (''10.0.0.1'', 35999995 / 10000)] Map.empty))) = 0
   \<and> max 0 (rate_limit_requests cfg2
        - int (currentWindowCount cfg2 (36000005 / 10000) ''10.0.0.1''
            (snd (serve cfg2 [(''10.0.0.1'', 0), (''10.0.0.1'', 35999995 / 10000)] Map.empty)))) = 1"
  by (simp add: cfg2_def currentWindowCount_def get_rate_limit_info_def Let_def rl_eval
      del: serve.simps(2))

text \<open>
  Claim C4. One call of \<open>is_rate_limited\<close> at the instant \<open>now\<close> keeps the recorded
  instants of the client that are later than \<open>now - rate_limit_window\<close>; when at least
  \<open>rate_limit_requests\<close> are left it rejects (returns True) and stores only the pruned
  list, otherwise it stores the pruned list with \<open>now\<close> appended and admits. On a
  server started with an empty limiter: a request is admitted whenever fewer than
  \<open>rate_limit_requests\<close> earlier requests of the same client (admitted or not) lie
  within the trailing window of its instant, so a client that stays within the limit in
  every window has every request admitted; and, the clock never having run backwards,
  a request is rejected, and nothing is recorded for it, when \<open>rate_limit_requests\<close>
  admitted requests of the client already lie within the trailing window. The window is
  the half-open interval from \<open>now - rate_limit_window\<close> (excluded) to \<open>now\<close>.
\<close>

theorem C4_admit:
  "is_rate_limited config now c rq =
     (let kept = filter (\<lambda>t. now - real_of_int (rate_limit_window config) < t) (recorded rq c)
      in if rate_limit_requests config \<le> int (length kept)
         then (True, rq(c \<mapsto> kept)) else (False, rq(c \<mapsto> kept @ [now])))
   \<and> (\<forall>pre post.
         int (length (filter (\<lambda>e. fst e = c \<and> now - real_of_int (rate_limit_window config) < snd e) pre))
           < rate_limit_requests config \<longrightarrow>
         \<not> fst (serve config (pre @ (c, now) # post) Map.empty) ! length pre)
   \<and> (\<forall>pre post.
         (\<forall>e\<in>set pre. snd e \<le> now) \<longrightarrow>
         rate_limit_requests config
           \<le> int (length (filter (\<lambda>t. now - real_of_int (rate_limit_window config) < t)
                 (admitted config pre c))) \<longrightarrow>
         fst (serve config (pre @ (c, now) # post) Map.empty) ! length pre
         \<and> recorded (snd (serve config (pre @ [(c, now)]) Map.empty)) c
             = filter (\<lambda>t. now - real_of_int (rate_limit_window config) < t) (admitted config pre c))"
proof (intro conjI allI impI)
  show "is_rate_limited config now c rq =
     (let kept = filter (\<lambda>t. now - real_of_int (rate_limit_window config) < t) (recorded rq c)
      in if rate_limit_requests config \<le> int (length kept)
         then (True, rq(c \<mapsto> kept)) else (False, rq(c \<mapsto> kept @ [now])))"
    by (simp add: is_rate_limited_eq kept_of_def Let_def)
next
  fix pre post
  let ?W = "real_of_int (rate_limit_window config)"
  assume few: "int (length (filter (\<lambda>e. fst e = c \<and> now - ?W < snd e) pre))
                 < rate_limit_requests config"
  have nth: "fst (serve config (pre @ (c, now) # post) Map.empty) ! length pre
          = fst (is_rate_limited config now c (snd (serve config pre Map.empty)))"
    by (simp add: serve_append serve_Cons length_serve nth_append del: serve.simps(2))
  have "length (filter (\<lambda>t. now - ?W < t) (map snd (filter (\<lambda>e. fst e = c) pre)))
          = length (filter (\<lambda>e. fst e = c \<and> now - ?W < snd e) pre)"
    by (induction pre) auto
  then have "int (length (kept_of config now (recorded (snd (serve config pre Map.empty)) c)))
          < rate_limit_requests config"
    using few recorded_le_requests [of "\<lambda>t. now - ?W < t" config pre c]
    by (simp add: kept_of_def)
  then show "\<not> fst (serve config (pre @ (c, now) # post) Map.empty) ! length pre"
    by (simp add: nth fst_is_rate_limited)
next
  fix pre post
  let ?W = "real_of_int (rate_limit_window config)"
  assume mono: "\<forall>e\<in>set pre. snd e \<le> now"
    and full: "rate_limit_requests config
           \<le> int (length (filter (\<lambda>t. now - ?W < t) (admitted config pre c)))"
  have nth: "fst (serve config (pre @ (c, now) # post) Map.empty) ! length pre
          = fst (is_rate_limited config now c (snd (serve config pre Map.empty)))"
    by (simp add: serve_append serve_Cons length_serve nth_append del: serve.simps(2))
  have k: "kept_of config now (recorded (snd (serve config pre Map.empty)) c)
         = filter (\<lambda>t. now - ?W < t) (admitted config pre c)"
    unfolding kept_of_def using mono by (intro recorded_above) simp
  show lim: "fst (serve config (pre @ (c, now) # post) Map.empty) ! length pre"
    using full by (simp add: nth fst_is_rate_limited k)
  show "recorded (snd (serve config (pre @ [(c, now)]) Map.empty)) c
             = filter (\<lambda>t. now - ?W < t) (admitted config pre c)"
    using full by (simp add: serve_snoc recorded_is_rate_limited fst_is_rate_limited k)
qed

theorem C4_admit_witness:
  "int (length (filter (\<lambda>e. fst e = ''a'' \<and> 3 - real_of_int (rate_limit_window cfg2) < snd e)
         [(''a'', 0::real)])) < rate_limit_requests cfg2
   \<and> \<not> fst (serve cfg2 ([(''a'', 0)] @ (''a'', 3) # []) Map.empty) ! length [(''a'', 0::real)]
   \<and> list_all (\<lambda>e. snd e \<le> 3) [(''a'', 0::real), (''b'', 1), (''a'', 2)]
   \<and> rate_limit_requests cfg2
        \<le> int (length (filter (\<lambda>t. 3 - real_of_int (rate_limit_window cfg2) < t)
              (admitted cfg2 [(''a'', 0), (''b'', 1), (''a'', 2)] ''a'')))
   \<and> fst (serve cfg2 ([(''a'', 0), (''b'', 1), (''a'', 2)] @ (''a'', 3) # []) Map.empty)
         ! length [(''a'', 0::real), (''b'', 1), (''a'', 2)]
   \<and> recorded (snd (serve cfg2 ([(''a'', 0), (''b'', 1), (''a'', 2)] @ [(''a'', 3)]) Map.empty)) ''a''
        = filter (\<lambda>t. 3 - real_of_int (rate_limit_window cfg2) < t)
              (admitted cfg2 [(''a'', 0), (''b'', 1), (''a'', 2)] ''a'')"
proof -
  have adm: "admitted cfg2 [(''a'', 0), (''b'', 1), (''a'', 2)] ''a'' = [0, 2]"
    by (simp add: admitted_def cfg2_def rl_eval del: serve.simps(2))
  have h1: "int (length (filter (\<lambda>e. fst e = ''a'' \<and> 3 - real_of_int (rate_limit_window cfg2) < snd e)
         [(''a'', 0::real)])) < rate_limit_requests cfg2"
    by (simp add: cfg2_def)
  have h2: "\<forall>e\<in>set [(''a'', 0::real), (''b'', 1), (''a'', 2)]. snd e \<le> 3"
    by simp
  have h2l: "list_all (\<lambda>e. snd e \<le> 3) [(''a'', 0::real), (''b'', 1), (''a'', 2)]"
    by simp
  have h3: "rate_limit_requests cfg2
        \<le> int (length (filter (\<lambda>t. 3 - real_of_int (rate_limit_window cfg2) < t)
              (admitted cfg2 [(''a'', 0), (''b'', 1), (''a'', 2)] ''a'')))"
    by (simp add: adm) (simp add: cfg2_def)
  note C = C4_admit [of cfg2 3 "''a''" Map.empty]
  from C h1 have r1: "\<not> fst (serve cfg2 ([(''a'', 0)] @ (''a'', 3) # []) Map.empty) ! length [(''a'', 0::real)]"
    by blast
  from C h2 h3 have r2: "fst (serve cfg2 ([(''a'', 0), (''b'', 1), (''a'', 2)] @ (''a'', 3) # []) Map.empty)
         ! length [(''a'', 0::real), (''b'', 1), (''a'', 2)]
     \<and> recorded (snd (serve cfg2 ([(''a'', 0), (''b'', 1), (''a'', 2)] @ [(''a'', 3)]) Map.empty)) ''a''
        = filter (\<lambda>t. 3 - real_of_int (rate_limit_window cfg2) < t)
              (admitted cfg2 [(''a'', 0), (''b'', 1), (''a'', 2)] ''a'')"
    by blast
  show ?thesis using h1 r1 h2l h3 r2 by blast
qed

text \<open>
  Claim C8. With a non-negative window, an instant \<open>t\<close> that is older than
  \<open>rate_limit_window\<close> seconds at the instant \<open>now\<close> of a call of \<open>is_rate_limited\<close> is
  not among the recorded instants of the client after the call, and the call decides
  and stores exactly what it would have if \<open>t\<close> had never been recorded: the old
  request counts neither for the decision nor for any later count.
\<close>

theorem C8_aged_out:
  "0 \<le> rate_limit_window config \<Longrightarrow> real_of_int (rate_limit_window config) < now - t \<Longrightarrow>
     t \<notin> set (recorded (snd (is_rate_limited config now c rq)) c)
     \<and> is_rate_limited config now c rq
         = is_rate_limited config now c (rq(c \<mapsto> filter (\<lambda>x. x \<noteq> t) (recorded rq c)))"
proof -
  assume W: "0 \<le> rate_limit_window config" and old: "real_of_int (rate_limit_window config) < now - t"
  have k: "kept_of config now (filter (\<lambda>x. x \<noteq> t) xs) = kept_of config now xs" for xs
    unfolding kept_of_def using old by (induction xs) auto
  have "t \<notin> set (kept_of config now (recorded rq c))"
    using old by (simp add: kept_of_def)
  moreover have "t \<noteq> now" using W old by auto
  ultimately have 1: "t \<notin> set (recorded (snd (is_rate_limited config now c rq)) c)"
    by (simp add: recorded_is_rate_limited)
  have 2: "is_rate_limited config now c rq
         = is_rate_limited config now c (rq(c \<mapsto> filter (\<lambda>x. x \<noteq> t) (recorded rq c)))"
    by (simp add: is_rate_limited_eq recorded_upd k)
  show ?thesis using 1 2 by blast
qed


theorem C8_aged_out_witness:
  "(0::int) \<le> rate_limit_window cfg2 \<and> real_of_int (rate_limit_window cfg2) < 4000 - 100
   \<and> (100::real) \<notin> set (recorded (snd (is_rate_limited cfg2 4000 ''a'' [''a'' \<mapsto> [100, 3000]])) ''a'')
   \<and> is_rate_limited cfg2 4000 ''a'' [''a'' \<mapsto> [100, 3000]]
       = is_rate_limited cfg2 4000 ''a''
           ([''a'' \<mapsto> [100, 3000]](''a'' \<mapsto> filter (\<lambda>x. x \<noteq> 100) (recorded [''a'' \<mapsto> [100, 3000]] ''a'')))"
proof -
  have h1: "(0::int) \<le> rate_limit_window cfg2" by (simp add: cfg2_def)
  have h2: "real_of_int (rate_limit_window cfg2) < 4000 - 100" by (simp add: cfg2_def)
  show ?thesis
    using C8_aged_out [OF h1 h2, of "''a''" "[''a'' \<mapsto> [100, 3000]]"] h1 h2
    by blast
qed


section \<open>Properties of the response generator and the handler\<close>

lemma generate_error_response_eq:
  "generate_error_response e utc sc ec msg w =
     (PRef (length (objs w) + 2),
      \<lparr>objs = objs w @
         [PyDict [(''code'', PStr ec), (''message'', PStr msg), (''status_code'', PInt sc)],
          PyDict [(''request_id'', PStr (''req_error_'' @ str_nat (randint 100000 999999 (rand e (draws w))))),
                  (''timestamp'', PStr (utc @ ''+00:00'')),
                  (''api_version'', PStr ''v1'')],
          PyDict [(''error'', PRef (length (objs w))), (''meta'', PRef (length (objs w) + 1))]],
       draws = Suc (draws w)\<rparr>)"
  by (simp add: generate_error_response_def alloc_def)

lemma three_le: "3 \<le> fuel \<Longrightarrow> \<exists>n. fuel = Suc (Suc (Suc n))"
  by (metis Suc_le_D numeral_3_eq_3 Suc_le_mono)

lemma json_dumps_envelope:
  assumes "3 \<le> fuel"
  shows "json_dumps fuel (objs (snd (generate_error_response e utc sc ec msg w)))
           (fst (generate_error_response e utc sc ec msg w))
         = Inr (error_envelope e utc (draws w) sc ec msg)"
proof -
  obtain n where n: "fuel = Suc (Suc (Suc n))" using three_le [OF assms] by blast
  show ?thesis
    by (simp add: n generate_error_response_eq heap_get_def nth_append error_envelope_def)
qed

lemma send_json_response_eq:
  "send_json_response fuel config e rd c rq sc data w =
     (case json_dumps fuel (objs w) data of
        Inl x \<Rightarrow> Inl x
      | Inr doc \<Rightarrow> Inr \<lparr>status = sc, headers = std_headers config e rd c rq doc, body = doc\<rparr>)"
  by (simp add: send_json_response_def std_headers_def Let_def split: sum.splits)

lemma send_json_response_Inr:
  "send_json_response fuel config e rd c rq sc data w = Inr r \<Longrightarrow>
     status r = sc \<and> headers r = std_headers config e rd c rq (body r)
     \<and> json_dumps fuel (objs w) data = Inr (body r)"
  by (auto simp: send_json_response_eq split: sum.splits)

lemma two_le: "2 \<le> fuel \<Longrightarrow> \<exists>n. fuel = Suc (Suc n)"
  by (metis Suc_le_D numeral_2_eq_2 Suc_le_mono)

lemma on_exception_Some:
  assumes "2 \<le> fuel"
  shows "\<exists>r. fst (on_exception fuel config e rd c rq x w) = Some r
           \<and> status r = 500 \<and> headers r = std_headers config e rd c rq (body r)
           \<and> fst (snd (on_exception fuel config e rd c rq x w)) = rq"
proof -
  obtain n where n: "fuel = Suc (Suc n)" using two_le [OF assms] by blast
  show ?thesis
    by (simp add: on_exception_def alloc_def send_json_response_eq n heap_get_def)
qed

lemma on_exception_headers:
  "fst (on_exception fuel config e rd c rq x w) = Some r \<Longrightarrow>
     headers r = std_headers config e rd c rq (body r)
     \<and> fst (snd (on_exception fuel config e rd c rq x w)) = rq"
  by (auto simp: on_exception_def alloc_def Let_def split: sum.splits prod.splits
      dest: send_json_response_Inr)

lemma send_rate_limit_response_headers:
  "fst (send_rate_limit_response fuel config e rd responses c rq w) = Some r \<Longrightarrow>
     status r = 429 \<and> headers r = std_headers config e rd c rq (body r)"
  by (auto simp: send_rate_limit_response_def split: sum.splits prod.splits
      dest: send_json_response_Inr)

lemma failures_nth:
  "\<exists>sc ec msg. failures ! (k mod length failures) = (sc, ec, msg) \<and> sc \<in> {500, 502, 503, 504}"
proof -
  have "k mod 4 < 4" by simp
  then have "k mod 4 = 0 \<or> k mod 4 = 1 \<or> k mod 4 = 2 \<or> k mod 4 = 3" by linarith
  then show ?thesis by (auto simp: failures_def)
qed

lemma send_random_failure_response_headers:
  "fst (send_random_failure_response fuel config e rd c rq w) = Some r \<Longrightarrow>
     status r \<in> {500, 502, 503, 504} \<and> headers r = std_headers config e rd c rq (body r)"
proof -
  assume a: "fst (send_random_failure_response fuel config e rd c rq w) = Some r"
  obtain sc ec msg where f: "failures ! (failure_choice rd mod length failures) = (sc, ec, msg)"
    and sc: "sc \<in> {500, 502, 503, 504}"
    using failures_nth by blast
  from a show ?thesis
    using sc
    by (auto simp: send_random_failure_response_def f Let_def split: sum.splits prod.splits
        dest!: send_json_response_Inr)
qed

lemma send_random_failure_response_Some:
  assumes "3 \<le> fuel"
  shows "\<exists>r. fst (send_random_failure_response fuel config e rd c rq w) = Some r"
proof -
  obtain sc ec msg where f: "failures ! (failure_choice rd mod length failures) = (sc, ec, msg)"
    using failures_nth by blast
  show ?thesis
    using json_dumps_envelope [OF assms, of e "utcnow rd" sc ec msg w]
    by (simp add: send_random_failure_response_def f send_json_response_eq case_prod_beta)
qed

lemma handle_request_limited:
  "fst (is_rate_limited config (t_limit rd) (client_address req) rq) \<Longrightarrow>
   handle_request fuel config e responses method req rd (rq, w) =
     (fst (send_rate_limit_response fuel config e rd responses (client_address req)
             (snd (is_rate_limited config (t_limit rd) (client_address req) rq)) w),
      (snd (is_rate_limited config (t_limit rd) (client_address req) rq),
       snd (send_rate_limit_response fuel config e rd responses (client_address req)
             (snd (is_rate_limited config (t_limit rd) (client_address req) rq)) w)))"
  by (simp add: handle_request_def Let_def case_prod_beta)

lemma handle_request_failure:
  "\<not> fst (is_rate_limited config (t_limit rd) (client_address req) rq) \<Longrightarrow>
   failure_draw rd < failure_rate config \<Longrightarrow>
   handle_request fuel config e responses method req rd (rq, w) =
     (fst (send_random_failure_response fuel config e rd (client_address req)
             (snd (is_rate_limited config (t_limit rd) (client_address req) rq)) w),
      (snd (is_rate_limited config (t_limit rd) (client_address req) rq),
       snd (send_random_failure_response fuel config e rd (client_address req)
             (snd (is_rate_limited config (t_limit rd) (client_address req) rq)) w)))"
  by (simp add: handle_request_def Let_def case_prod_beta)

lemma handle_request_routed:
  "\<not> fst (is_rate_limited config (t_limit rd) (client_address req) rq) \<Longrightarrow>
   \<not> failure_draw rd < failure_rate config \<Longrightarrow>
   split_on CHR ''/'' (strip_slashes (url_path req)) = provider # action # rest \<Longrightarrow>
   handle_request fuel config e responses method req rd (rq, w) =
     (case route_request fuel e (utcnow rd) responses provider action method (url_query req) w of
        (Inl x, w1) \<Rightarrow> on_exception fuel config e rd (client_address req)
                        (snd (is_rate_limited config (t_limit rd) (client_address req) rq)) x w1
      | (Inr resp, w1) \<Rightarrow>
          (case send_json_response fuel config e rd (client_address req)
                  (snd (is_rate_limited config (t_limit rd) (client_address req) rq)) 200 resp w1 of
             Inl x \<Rightarrow> on_exception fuel config e rd (client_address req)
                        (snd (is_rate_limited config (t_limit rd) (client_address req) rq)) x w1
           | Inr r \<Rightarrow> (Some r, (snd (is_rate_limited config (t_limit rd) (client_address req) rq), w1))))"
  by (simp add: handle_request_def Let_def case_prod_beta)

lemma handle_request_invalid:
  "\<not> fst (is_rate_limited config (t_limit rd) (client_address req) rq) \<Longrightarrow>
   \<not> failure_draw rd < failure_rate config \<Longrightarrow>
   length (split_on CHR ''/'' (strip_slashes (url_path req))) < 2 \<Longrightarrow>
   handle_request fuel config e responses method req rd (rq, w) =
     (case send_json_response fuel config e rd (client_address req)
             (snd (is_rate_limited config (t_limit rd) (client_address req) rq)) 404
             (PRef (length (objs w)))
             (w\<lparr>objs := objs w @ [PyDict [(''error'', PStr ''Invalid API endpoint''),
                    (''message'', PStr ''Expected format: /{provider}/{action}'')]]\<rparr>) of
        Inl x \<Rightarrow> on_exception fuel config e rd (client_address req)
                   (snd (is_rate_limited config (t_limit rd) (client_address req) rq)) x
                   (w\<lparr>objs := objs w @ [PyDict [(''error'', PStr ''Invalid API endpoint''),
                    (''message'', PStr ''Expected format: /{provider}/{action}'')]]\<rparr>)
      | Inr r \<Rightarrow> (Some r, (snd (is_rate_limited config (t_limit rd) (client_address req) rq),
                    w\<lparr>objs := objs w @ [PyDict [(''error'', PStr ''Invalid API endpoint''),
                    (''message'', PStr ''Expected format: /{provider}/{action}'')]]\<rparr>)))"
  by (simp add: handle_request_def Let_def case_prod_beta alloc_def)

lemma length_ge2: "2 \<le> length xs \<Longrightarrow> \<exists>a b r. xs = a # b # r"
  by (cases xs; cases "tl xs") auto

lemma handle_request_headers:
  assumes "fst (handle_request fuel config e responses method req rd (rq, w)) = Some r"
  shows "headers r = std_headers config e rd (client_address req)
           (fst (snd (handle_request fuel config e responses method req rd (rq, w)))) (body r)"
proof -
  let ?rq1 = "snd (is_rate_limited config (t_limit rd) (client_address req) rq)"
  let ?c = "client_address req"
  consider (lim) "fst (is_rate_limited config (t_limit rd) ?c rq)"
    | (fail) "\<not> fst (is_rate_limited config (t_limit rd) ?c rq)" "failure_draw rd < failure_rate config"
    | (routed) provider action rest where
        "\<not> fst (is_rate_limited config (t_limit rd) ?c rq)" "\<not> failure_draw rd < failure_rate config"
        "split_on CHR ''/'' (strip_slashes (url_path req)) = provider # action # rest"
    | (invalid) "\<not> fst (is_rate_limited config (t_limit rd) ?c rq)" "\<not> failure_draw rd < failure_rate config"
        "length (split_on CHR ''/'' (strip_slashes (url_path req))) < 2"
    using length_ge2 [of "split_on CHR ''/'' (strip_slashes (url_path req))"]
    by (metis not_le)
  then show ?thesis
  proof cases
    case lim
    then show ?thesis using assms send_rate_limit_response_headers
      by (simp add: handle_request_limited)
  next
    case fail
    then show ?thesis using assms send_random_failure_response_headers
      by (simp add: handle_request_failure)
  next
    case routed
    then show ?thesis using assms
      by (auto simp: handle_request_routed split: prod.splits sum.splits
          dest: on_exception_headers send_json_response_Inr)
  next
    case invalid
    then show ?thesis using assms
      by (auto simp: handle_request_invalid split: prod.splits sum.splits
          dest: on_exception_headers send_json_response_Inr)
  qed
qed

lemma get_response_no_provider:
  "map_of responses provider = None \<Longrightarrow>
   get_response fuel e utc responses provider scenario kwargs w =
     (Inr (fst (generate_error_response e utc 404 ''provider_not_found''
             (''Provider '' @ [CHR 0x27] @ provider @ [CHR 0x27] @ '' not supported'') w)),
      snd (generate_error_response e utc 404 ''provider_not_found''
             (''Provider '' @ [CHR 0x27] @ provider @ [CHR 0x27] @ '' not supported'') w))"
  by (simp add: get_response_def case_prod_beta)

lemma get_response_no_scenario:
  "map_of responses provider = Some ss \<Longrightarrow> map_of ss scenario = None \<Longrightarrow>
   get_response fuel e utc responses provider scenario kwargs w =
     (Inr (fst (generate_error_response e utc 404 ''scenario_not_found''
             (''Scenario '' @ [CHR 0x27] @ scenario @ [CHR 0x27]
                @ '' not found for provider '' @ [CHR 0x27] @ provider @ [CHR 0x27]) w)),
      snd (generate_error_response e utc 404 ''scenario_not_found''
             (''Scenario '' @ [CHR 0x27] @ scenario @ [CHR 0x27]
                @ '' not found for provider '' @ [CHR 0x27] @ provider @ [CHR 0x27]) w))"
  by (simp add: get_response_def case_prod_beta)

lemma route_request_eq:
  "action \<noteq> ''test-scenarios'' \<Longrightarrow> qp ''scenario'' \<noteq> Some [] \<Longrightarrow>
   route_request fuel e utc responses provider action method qp w =
     get_response fuel e utc responses provider
       (case qp ''scenario'' of
          Some (v # vs) \<Rightarrow> v
        | _ \<Rightarrow> (case map_of scenario_map action of None \<Rightarrow> ''success-create-server'' | Some s \<Rightarrow> s))
       [] w"
  by (simp add: route_request_def split: option.splits list.splits)

lemma scenario_map_eq:
  "(case map_of scenario_map action of None \<Rightarrow> ''success-create-server'' | Some s \<Rightarrow> s) =
     (if action \<in> {''servers'', ''instances'', ''droplets'', ''create-server''}
      then ''success-create-server''
      else if action = ''list-servers'' then ''success-list-servers''
      else if action = ''server-status'' then ''success-server-status''
      else ''success-create-server'')"
  by (simp add: scenario_map_def)

lemma route_request_method:
  "route_request fuel e utc responses provider action method qp w =
   route_request fuel e utc responses provider action method' qp w"
  by (simp add: route_request_def)

lemma on_exception_requests:
  "fst (snd (on_exception fuel config e rd c rq x w)) = rq"
  by (simp add: on_exception_def alloc_def Let_def split: sum.splits prod.splits)

lemma handle_request_requests:
  "fst (snd (handle_request fuel config e responses method req rd (rq, w)))
     = snd (is_rate_limited config (t_limit rd) (client_address req) rq)"
  by (simp add: handle_request_def Let_def case_prod_beta on_exception_requests
      split: sum.splits prod.splits)

lemma handle_request_Some:
  assumes fuel: "3 \<le> fuel"
    and nl: "\<not> fst (is_rate_limited config (t_limit rd) (client_address req) rq)"
  shows "\<exists>r. fst (handle_request fuel config e responses method req rd (rq, w)) = Some r"
proof -
  have f2: "2 \<le> fuel" using fuel by simp
  have ex: "\<exists>r. fst (on_exception fuel config e rd c rq' x w') = Some r" for c rq' x w'
    using on_exception_Some [OF f2, of config e rd c rq' x w'] by blast
  let ?c = "client_address req"
  consider (fail) "failure_draw rd < failure_rate config"
    | (routed) provider action rest where "\<not> failure_draw rd < failure_rate config"
        "split_on CHR ''/'' (strip_slashes (url_path req)) = provider # action # rest"
    | (invalid) "\<not> failure_draw rd < failure_rate config"
        "length (split_on CHR ''/'' (strip_slashes (url_path req))) < 2"
    using length_ge2 [of "split_on CHR ''/'' (strip_slashes (url_path req))"]
    by (metis not_le)
  then show ?thesis
  proof cases
    case fail
    then show ?thesis using nl send_random_failure_response_Some [OF fuel]
      by (simp add: handle_request_failure)
  next
    case routed
    show ?thesis using ex
      by (auto simp: handle_request_routed [OF nl routed] split: prod.splits sum.splits)
  next
    case invalid
    show ?thesis using ex
      by (auto simp: handle_request_invalid [OF nl invalid] split: prod.splits sum.splits)
  qed
qed

lemma lookup_miss_sent_200:
  assumes fuel: "3 \<le> fuel"
    and nl: "\<not> fst (is_rate_limited config (t_limit rd) (client_address req) rq)"
    and nf: "\<not> failure_draw rd < failure_rate config"
    and sp: "split_on CHR ''/'' (strip_slashes (url_path req)) = provider # action # rest"
    and act: "action \<noteq> ''test-scenarios''"
    and q: "url_query req ''scenario'' = Some [scenario]"
  shows "(map_of responses provider = None \<longrightarrow>
      (\<exists>r. fst (handle_request fuel config e responses method req rd (rq, w)) = Some r
         \<and> status r = 200
         \<and> body r = error_envelope e (utcnow rd) (draws w) 404 ''provider_not_found''
                      (''Provider '' @ [CHR 0x27] @ provider @ [CHR 0x27] @ '' not supported'')))
   \<and> (\<forall>ss. map_of responses provider = Some ss \<longrightarrow> map_of ss scenario = None \<longrightarrow>
      (\<exists>r. fst (handle_request fuel config e responses method req rd (rq, w)) = Some r
         \<and> status r = 200
         \<and> body r = error_envelope e (utcnow rd) (draws w) 404 ''scenario_not_found''
                      (''Scenario '' @ [CHR 0x27] @ scenario @ [CHR 0x27]
                         @ '' not found for provider '' @ [CHR 0x27] @ provider @ [CHR 0x27])))"
  using json_dumps_envelope [OF fuel] act q
  by (auto simp: handle_request_routed [OF nl nf sp] route_request_def
      get_response_no_provider get_response_no_scenario send_json_response_eq)

lemma not_limited0: "\<not> fst (is_rate_limited cfg2 (t_limit rd0) ''10.0.0.1'' Map.empty)"
  by (simp add: cfg2_def rd0_def rl_eval)

lemma limited2: "fst (is_rate_limited cfg2 (t_limit rd0) ''10.0.0.1'' [''10.0.0.1'' \<mapsto> [8, 9]])"
  by (simp add: cfg2_def rd0_def rl_eval)

lemma no_failure0: "\<not> failure_draw rd0 < failure_rate cfg2"
  by (simp add: cfg2_def rd0_def)

lemma split_quota: "split_on CHR ''/'' (strip_slashes (url_path req_quota)) = ''aws'' # ''instances'' # []"
  by (simp add: req_quota_def strip_slashes_def)

lemma split_invalid: "split_on CHR ''/'' (strip_slashes (url_path req_invalid)) = [''x'']"
  by (simp add: req_invalid_def strip_slashes_def)

section \<open>The walks refine the rewrites on documents\<close>

lemma heap_get_Some: "heap_get h a = Some ob \<longleftrightarrow> a < length h \<and> h ! a = ob"
  by (auto simp: heap_get_def)

lemma fp_bound:
  "a \<in> fp h v t \<Longrightarrow> a < length h"
  "a \<in> fp_fields h kvs fs \<Longrightarrow> a < length h"
  "a \<in> fp_items h xs ts \<Longrightarrow> a < length h"
  by (induction h v t and h kvs fs and h xs ts rule: fp_fp_fields_fp_items.induct)
     (auto simp: heap_get_Some split: pyval.splits option.splits pyobj.splits list.splits)

lemma frame:
  "repr h v t \<Longrightarrow> length h \<le> length h' \<Longrightarrow> \<forall>b\<in>fp h v t. h' ! b = h ! b \<Longrightarrow>
     repr h' v t \<and> fp h' v t = fp h v t"
  "repr_fields h kvs fs \<Longrightarrow> length h \<le> length h' \<Longrightarrow> \<forall>b\<in>fp_fields h kvs fs. h' ! b = h ! b \<Longrightarrow>
     repr_fields h' kvs fs \<and> fp_fields h' kvs fs = fp_fields h kvs fs"
  "repr_items h xs ts \<Longrightarrow> length h \<le> length h' \<Longrightarrow> \<forall>b\<in>fp_items h xs ts. h' ! b = h ! b \<Longrightarrow>
     repr_items h' xs ts \<and> fp_items h' xs ts = fp_items h xs ts"
proof (induction h v t and h kvs fs and h xs ts rule: repr_repr_fields_repr_items.induct)
  case (1 h v fs)
  then show ?case
    by (auto simp: heap_get_Some split: pyval.splits option.splits pyobj.splits)
next
  case (2 h v ts)
  then show ?case
    by (auto simp: heap_get_Some split: pyval.splits option.splits pyobj.splits)
next
  case (9 h kvs f fs)
  then show ?case
    by (cases kvs) (auto simp: Ball_def)
next
  case (11 h xs t ts)
  then show ?case
    by (cases xs) (auto simp: Ball_def)
qed auto

lemma repr_fields_keys: "repr_fields h kvs fs \<Longrightarrow> map fst kvs = map fst fs"
  by (induction fs arbitrary: kvs) (auto split: list.splits)

lemma repr_fields_length: "repr_fields h kvs fs \<Longrightarrow> length kvs = length fs"
  by (induction fs arbitrary: kvs) (auto split: list.splits)

lemma repr_items_length: "repr_items h xs ts \<Longrightarrow> length xs = length ts"
  by (induction ts arbitrary: xs) (auto split: list.splits)

lemma truthy_repr: "repr h v t \<Longrightarrow> truthy h v = jtruthy t"
  by (cases t)
     (auto simp: truthy_def jtruthy_def split: pyval.splits option.splits pyobj.splits list.splits
       dest: repr_fields_length repr_items_length)

lemma container_repr:
  "repr h v t \<Longrightarrow> is_container v \<longleftrightarrow> (\<exists>fs. t = JObj fs) \<or> (\<exists>ts. t = JArr ts)"
  by (cases t) (auto simp: is_container_def split: pyval.splits)

lemma twalk_scalar:
  "\<not> ((\<exists>fs. t = JObj fs) \<or> (\<exists>ts. t = JArr ts)) \<Longrightarrow> twalk td t c = (t, c)"
  by (cases t) auto

lemma dict_set_middle:
  "k \<notin> fst ` set pre \<Longrightarrow> dict_set (pre @ (k, x) # rest) k v = pre @ (k, v) # rest"
  by (induction pre) auto

lemma height_pos: "0 < height t"
  by (cases t) auto

lemma walk_item_step:
  assumes rec: "rec_ok td rec n" and dr: "drel d td"
    and at: "heap_get (objs w) a = Some (PyDict (pre @ kv # rest))"
    and dist: "distinct (map fst (pre @ kv # rest))"
    and key: "fst kv = fst f"
    and rp: "repr (objs w) (snd kv) (snd f)"
    and na: "a \<notin> fp (objs w) (snd kv) (snd f)"
    and ht: "height (snd f) \<le> n"
  shows "\<exists>w1 v1 t1.
      walk_item d rec a (length pre) w = (Inr (), w1)
      \<and> heap_get (objs w1) a = Some (PyDict (pre @ (fst kv, v1) # rest))
      \<and> repr (objs w1) v1 t1
      \<and> fp (objs w1) v1 t1 \<subseteq> fp (objs w) (snd kv) (snd f)
      \<and> twalk_fields td (f # frest) (draws w) =
           ((fst f, t1) # fst (twalk_fields td frest (draws w1)),
            snd (twalk_fields td frest (draws w1)))
      \<and> length (objs w1) = length (objs w)
      \<and> (\<forall>b. b \<noteq> a \<longrightarrow> b \<notin> fp (objs w) (snd kv) (snd f) \<longrightarrow> objs w1 ! b = objs w ! b)"
proof -
  have a: "a < length (objs w)" and oa: "objs w ! a = PyDict (pre @ kv # rest)"
    using at by (auto simp: heap_get_Some)
  have nth: "(pre @ kv # rest) ! length pre = kv" by simp
  have lt: "length pre < length (pre @ kv # rest)" by simp
  have deq: "d (fst kv) (snd kv) w = td (fst f) (snd f) (draws w)"
    using dr rp key by (simp add: drel_def)
  show ?thesis
  proof (cases "d (fst kv) (snd kv) w")
    case (Some sc)
    have notin: "fst kv \<notin> fst ` set pre" using dist by auto
    have ds: "dict_set (pre @ kv # rest) (fst kv) (PStr (fst sc)) = pre @ (fst kv, PStr (fst sc)) # rest"
      using dict_set_middle [OF notin, of "snd kv" rest "PStr (fst sc)"] by simp
    let ?w1 = "heap_set a (PyDict (pre @ (fst kv, PStr (fst sc)) # rest)) (w\<lparr>draws := snd sc\<rparr>)"
    have step: "walk_item d rec a (length pre) w = (Inr (), ?w1)"
      using at Some ds by (simp add: walk_item_def Let_def del: dict_set.simps)
    have tw: "twalk_fields td (f # frest) (draws w) =
           ((fst f, JStr (fst sc)) # fst (twalk_fields td frest (snd sc)),
            snd (twalk_fields td frest (snd sc)))"
      using Some deq by (simp add: Let_def)
    show ?thesis
      apply (rule exI [of _ ?w1], rule exI [of _ "PStr (fst sc)"], rule exI [of _ "JStr (fst sc)"])
      using step tw a by (simp add: heap_set_def heap_get_Some)
  next
    case None
    note dNone = None
    show ?thesis
    proof (cases "is_container (snd kv)")
      case True
      have "ok_result td (rec (snd kv) w) w (snd kv) (snd f)"
        using rec rp ht by (simp add: rec_ok_def)
      then obtain w1 where w1: "rec (snd kv) w = (Inr (), w1)"
        and r1: "repr (objs w1) (snd kv) (fst (twalk td (snd f) (draws w)))"
        and f1: "fp (objs w1) (snd kv) (fst (twalk td (snd f) (draws w))) \<subseteq> fp (objs w) (snd kv) (snd f)"
        and d1: "draws w1 = snd (twalk td (snd f) (draws w))"
        and l1: "length (objs w1) = length (objs w)"
        and fr1: "\<forall>b. b \<notin> fp (objs w) (snd kv) (snd f) \<longrightarrow> objs w1 ! b = objs w ! b"
        unfolding ok_result_def by blast
      have step: "walk_item d rec a (length pre) w = (Inr (), w1)"
        using at dNone True w1 by (simp add: walk_item_def Let_def)
      have tw: "twalk_fields td (f # frest) (draws w) =
           ((fst f, fst (twalk td (snd f) (draws w))) # fst (twalk_fields td frest (draws w1)),
            snd (twalk_fields td frest (draws w1)))"
        using dNone deq d1 by (simp add: Let_def)
      have at1: "heap_get (objs w1) a = Some (PyDict (pre @ (fst kv, snd kv) # rest))"
        using a oa l1 fr1 na by (simp add: heap_get_Some)
      show ?thesis
        apply (rule exI [of _ w1], rule exI [of _ "snd kv"],
               rule exI [of _ "fst (twalk td (snd f) (draws w))"])
        using step tw at1 r1 f1 l1 fr1 by simp
    next
      case False
      have sc: "\<not> ((\<exists>fs. snd f = JObj fs) \<or> (\<exists>ts. snd f = JArr ts))"
        using container_repr [OF rp] False by simp
      have step: "walk_item d rec a (length pre) w = (Inr (), w)"
        using at dNone False by (simp add: walk_item_def Let_def)
      have tw: "twalk_fields td (f # frest) (draws w) =
           ((fst f, snd f) # fst (twalk_fields td frest (draws w)),
            snd (twalk_fields td frest (draws w)))"
        using dNone deq twalk_scalar [OF sc] by (simp add: Let_def)
      show ?thesis
        apply (rule exI [of _ w], rule exI [of _ "snd kv"], rule exI [of _ "snd f"])
        using step tw at rp by simp
    qed
  qed
qed

lemma walk_fields:
  assumes rec: "rec_ok td rec n" and dr: "drel d td"
  shows "heap_get (objs w) a = Some (PyDict (pre @ kvs)) \<Longrightarrow>
     distinct (map fst (pre @ kvs)) \<Longrightarrow>
     repr_fields (objs w) kvs fs \<Longrightarrow>
     a \<notin> fp_fields (objs w) kvs fs \<Longrightarrow>
     height_fields fs \<le> n \<Longrightarrow>
     \<exists>w' kvs'.
        for_range (walk_item d rec a) (length pre) (length kvs) w = (Inr (), w')
        \<and> heap_get (objs w') a = Some (PyDict (pre @ kvs'))
        \<and> map fst kvs' = map fst kvs
        \<and> repr_fields (objs w') kvs' (fst (twalk_fields td fs (draws w)))
        \<and> fp_fields (objs w') kvs' (fst (twalk_fields td fs (draws w))) \<subseteq> fp_fields (objs w) kvs fs
        \<and> draws w' = snd (twalk_fields td fs (draws w))
        \<and> length (objs w') = length (objs w)
        \<and> (\<forall>b. b \<noteq> a \<longrightarrow> b \<notin> fp_fields (objs w) kvs fs \<longrightarrow> objs w' ! b = objs w ! b)"
proof (induction kvs arbitrary: pre fs w)
  case Nil
  then have "fs = []" by (cases fs) auto
  with Nil show ?case
    by (intro exI [of _ w] exI [of _ "[]"]) simp
next
  case (Cons kv rest)
  from Cons.prems(3) obtain f frest where fs: "fs = f # frest"
    by (cases fs) auto
  from Cons.prems(3) have key: "fst kv = fst f"
    and rp: "repr (objs w) (snd kv) (snd f)"
    and disj: "fp (objs w) (snd kv) (snd f) \<inter> fp_fields (objs w) rest frest = {}"
    and rrest: "repr_fields (objs w) rest frest"
    by (auto simp: fs)
  from Cons.prems(4) have na: "a \<notin> fp (objs w) (snd kv) (snd f)"
    and narest: "a \<notin> fp_fields (objs w) rest frest"
    by (auto simp: fs)
  from Cons.prems(5) have ht: "height (snd f) \<le> n" and htrest: "height_fields frest \<le> n"
    by (auto simp: fs)
  from walk_item_step [OF rec dr Cons.prems(1) Cons.prems(2) key rp na ht, of frest]
  obtain w1 v1 t1 where
    step: "walk_item d rec a (length pre) w = (Inr (), w1)"
    and at1: "heap_get (objs w1) a = Some (PyDict (pre @ (fst kv, v1) # rest))"
    and r1: "repr (objs w1) v1 t1"
    and f1: "fp (objs w1) v1 t1 \<subseteq> fp (objs w) (snd kv) (snd f)"
    and tw: "twalk_fields td (f # frest) (draws w) =
           ((fst f, t1) # fst (twalk_fields td frest (draws w1)),
            snd (twalk_fields td frest (draws w1)))"
    and l1: "length (objs w1) = length (objs w)"
    and fr1: "\<forall>b. b \<noteq> a \<longrightarrow> b \<notin> fp (objs w) (snd kv) (snd f) \<longrightarrow> objs w1 ! b = objs w ! b"
    by (elim exE conjE) (rule that; assumption)
  \<comment> \<open>the remaining fields are untouched by the step\<close>
  have same: "\<forall>b\<in>fp_fields (objs w) rest frest. objs w1 ! b = objs w ! b"
  proof
    fix b assume b: "b \<in> fp_fields (objs w) rest frest"
    then have "b \<noteq> a" using narest by auto
    moreover have "b \<notin> fp (objs w) (snd kv) (snd f)" using b disj by auto
    ultimately show "objs w1 ! b = objs w ! b" using fr1 by simp
  qed
  have rest1: "repr_fields (objs w1) rest frest"
    and fprest1: "fp_fields (objs w1) rest frest = fp_fields (objs w) rest frest"
    using frame(2) [OF rrest _ same] l1 by simp_all
  have at1': "heap_get (objs w1) a = Some (PyDict ((pre @ [(fst kv, v1)]) @ rest))"
    using at1 by simp
  have dist1: "distinct (map fst ((pre @ [(fst kv, v1)]) @ rest))"
    using Cons.prems(2) by simp
  have narest1: "a \<notin> fp_fields (objs w1) rest frest"
    using narest fprest1 by simp
  from Cons.IH [OF at1' dist1 rest1 narest1 htrest]
  obtain w' kvs' where
    loop: "for_range (walk_item d rec a) (length (pre @ [(fst kv, v1)])) (length rest) w1 = (Inr (), w')"
    and at': "heap_get (objs w') a = Some (PyDict ((pre @ [(fst kv, v1)]) @ kvs'))"
    and keys': "map fst kvs' = map fst rest"
    and r': "repr_fields (objs w') kvs' (fst (twalk_fields td frest (draws w1)))"
    and f': "fp_fields (objs w') kvs' (fst (twalk_fields td frest (draws w1)))
               \<subseteq> fp_fields (objs w1) rest frest"
    and d': "draws w' = snd (twalk_fields td frest (draws w1))"
    and l': "length (objs w') = length (objs w1)"
    and fr': "\<forall>b. b \<noteq> a \<longrightarrow> b \<notin> fp_fields (objs w1) rest frest \<longrightarrow> objs w' ! b = objs w1 ! b"
    by (elim exE conjE) (rule that; assumption)
  \<comment> \<open>the first field is untouched by the rest of the loop\<close>
  have a1: "a \<notin> fp (objs w1) v1 t1" using f1 na by blast
  have same1: "\<forall>b\<in>fp (objs w1) v1 t1. objs w' ! b = objs w1 ! b"
  proof
    fix b assume b: "b \<in> fp (objs w1) v1 t1"
    then have "b \<noteq> a" using a1 by auto
    moreover have "b \<in> fp (objs w) (snd kv) (snd f)" using b f1 by auto
    then have "b \<notin> fp_fields (objs w1) rest frest" using disj fprest1 by auto
    ultimately show "objs w' ! b = objs w1 ! b" using fr' by simp
  qed
  have r1': "repr (objs w') v1 t1" and f1': "fp (objs w') v1 t1 = fp (objs w1) v1 t1"
    using frame(1) [OF r1 _ same1] l' by simp_all
  have run: "for_range (walk_item d rec a) (length pre) (length (kv # rest)) w = (Inr (), w')"
    using step loop by simp
  have rfin: "repr_fields (objs w') ((fst kv, v1) # kvs') (fst (twalk_fields td fs (draws w)))"
    unfolding fs tw using r1' r' f' f1' f1 disj fprest1 key by auto
  have ffin: "fp_fields (objs w') ((fst kv, v1) # kvs') (fst (twalk_fields td fs (draws w)))
                \<subseteq> fp_fields (objs w) (kv # rest) fs"
    unfolding fs tw using f' f1' f1 fprest1 by auto
  have frfin: "\<forall>b. b \<noteq> a \<longrightarrow> b \<notin> fp_fields (objs w) (kv # rest) fs \<longrightarrow> objs w' ! b = objs w ! b"
  proof (intro allI impI)
    fix b assume ba: "b \<noteq> a" and nb: "b \<notin> fp_fields (objs w) (kv # rest) fs"
    from nb have n1: "b \<notin> fp (objs w) (snd kv) (snd f)"
      and n2: "b \<notin> fp_fields (objs w) rest frest" by (auto simp: fs)
    have "objs w' ! b = objs w1 ! b" using fr' ba n2 fprest1 by simp
    also have "\<dots> = objs w ! b" using fr1 ba n1 by simp
    finally show "objs w' ! b = objs w ! b" .
  qed
  show ?case
    apply (rule exI [of _ w'], rule exI [of _ "(fst kv, v1) # kvs'"])
    using run at' keys' rfin ffin d' l' l1 frfin unfolding fs tw by simp
qed




lemma walk_items:
  assumes rec: "rec_ok td rec n"
  shows "repr_items (objs w) xs ts \<Longrightarrow> height_items ts \<le> n \<Longrightarrow>
     \<exists>w'. for_each rec xs w = (Inr (), w')
        \<and> repr_items (objs w') xs (fst (twalk_items td ts (draws w)))
        \<and> fp_items (objs w') xs (fst (twalk_items td ts (draws w))) \<subseteq> fp_items (objs w) xs ts
        \<and> draws w' = snd (twalk_items td ts (draws w))
        \<and> length (objs w') = length (objs w)
        \<and> (\<forall>b. b \<notin> fp_items (objs w) xs ts \<longrightarrow> objs w' ! b = objs w ! b)"
proof (induction xs arbitrary: ts w)
  case Nil
  then have "ts = []" by (cases ts) auto
  then show ?case by simp
next
  case (Cons x rest)
  from Cons.prems(1) obtain t trest where ts: "ts = t # trest"
    by (cases ts) auto
  from Cons.prems(1) have rp: "repr (objs w) x t"
    and disj: "fp (objs w) x t \<inter> fp_items (objs w) rest trest = {}"
    and rrest: "repr_items (objs w) rest trest"
    by (auto simp: ts)
  from Cons.prems(2) have ht: "height t \<le> n" and htrest: "height_items trest \<le> n"
    by (auto simp: ts)
  have "ok_result td (rec x w) w x t"
    using rec rp ht by (simp add: rec_ok_def)
  then obtain w1 where w1: "rec x w = (Inr (), w1)"
    and r1: "repr (objs w1) x (fst (twalk td t (draws w)))"
    and f1: "fp (objs w1) x (fst (twalk td t (draws w))) \<subseteq> fp (objs w) x t"
    and d1: "draws w1 = snd (twalk td t (draws w))"
    and l1: "length (objs w1) = length (objs w)"
    and fr1: "\<forall>b. b \<notin> fp (objs w) x t \<longrightarrow> objs w1 ! b = objs w ! b"
    unfolding ok_result_def by blast
  have same: "\<forall>b\<in>fp_items (objs w) rest trest. objs w1 ! b = objs w ! b"
    using fr1 disj by blast
  have rest1: "repr_items (objs w1) rest trest"
    and fprest1: "fp_items (objs w1) rest trest = fp_items (objs w) rest trest"
    using frame(3) [OF rrest _ same] l1 by simp_all
  from Cons.IH [OF rest1 htrest]
  obtain w' where
    loop: "for_each rec rest w1 = (Inr (), w')"
    and r': "repr_items (objs w') rest (fst (twalk_items td trest (draws w1)))"
    and f': "fp_items (objs w') rest (fst (twalk_items td trest (draws w1)))
               \<subseteq> fp_items (objs w1) rest trest"
    and d': "draws w' = snd (twalk_items td trest (draws w1))"
    and l': "length (objs w') = length (objs w1)"
    and fr': "\<forall>b. b \<notin> fp_items (objs w1) rest trest \<longrightarrow> objs w' ! b = objs w1 ! b"
    by blast
  let ?t1 = "fst (twalk td t (draws w))"
  have same1: "\<forall>b\<in>fp (objs w1) x ?t1. objs w' ! b = objs w1 ! b"
    using fr' f1 disj fprest1 by blast
  have r1': "repr (objs w') x ?t1" and f1': "fp (objs w') x ?t1 = fp (objs w1) x ?t1"
    using frame(1) [OF r1 _ same1] l' by simp_all
  have tw: "twalk_items td ts (draws w) =
      (?t1 # fst (twalk_items td trest (draws w1)), snd (twalk_items td trest (draws w1)))"
    by (simp add: ts Let_def d1)
  have run: "for_each rec (x # rest) w = (Inr (), w')"
    using w1 loop by simp
  have rfin: "repr_items (objs w') (x # rest) (fst (twalk_items td ts (draws w)))"
    unfolding tw using r1' r' f' f1' f1 disj fprest1 by auto
  have ffin: "fp_items (objs w') (x # rest) (fst (twalk_items td ts (draws w)))
                \<subseteq> fp_items (objs w) (x # rest) ts"
    unfolding tw using f' f1' f1 fprest1 by (auto simp: ts)
  have frfin: "\<forall>b. b \<notin> fp_items (objs w) (x # rest) ts \<longrightarrow> objs w' ! b = objs w ! b"
    using fr' fr1 fprest1 by (auto simp: ts)
  show ?case
    apply (rule exI [of _ w'])
    using run rfin ffin d' l' l1 frfin unfolding tw by simp
qed



lemma walk_refines:
  assumes dr: "drel d td"
  shows "rec_ok td (walk n d) n"
proof (induction n)
  case 0
  show ?case
    unfolding rec_ok_def
  proof (intro allI impI)
    fix v t and w :: world
    assume "height t \<le> 0"
    then show "ok_result td (walk 0 d v w) w v t" using height_pos [of t] by simp
  qed
next
  case (Suc n)
  show ?case
    unfolding rec_ok_def
  proof (intro allI impI)
    fix v t and w :: world
    assume rp: "repr (objs w) v t" and ht: "height t \<le> Suc n"
    show "ok_result td (walk (Suc n) d v w) w v t"
    proof (cases t)
      case (JObj fs)
      from rp obtain a kvs where v: "v = PRef a"
        and at: "heap_get (objs w) a = Some (PyDict kvs)"
        and dist: "distinct (map fst kvs)"
        and na: "a \<notin> fp_fields (objs w) kvs fs"
        and rf: "repr_fields (objs w) kvs fs"
        by (auto simp: JObj split: pyval.splits option.splits pyobj.splits)
      have hf: "height_fields fs \<le> n" using ht by (simp add: JObj)
      from walk_fields [OF Suc dr, of w a "[]" kvs fs] at dist rf na hf
      obtain w' kvs' where
        loop: "for_range (walk_item d (walk n d) a) 0 (length kvs) w = (Inr (), w')"
        and at': "heap_get (objs w') a = Some (PyDict kvs')"
        and keys': "map fst kvs' = map fst kvs"
        and r': "repr_fields (objs w') kvs' (fst (twalk_fields td fs (draws w)))"
        and f': "fp_fields (objs w') kvs' (fst (twalk_fields td fs (draws w)))
               \<subseteq> fp_fields (objs w) kvs fs"
        and d': "draws w' = snd (twalk_fields td fs (draws w))"
        and l': "length (objs w') = length (objs w)"
        and fr': "\<forall>b. b \<noteq> a \<longrightarrow> b \<notin> fp_fields (objs w) kvs fs \<longrightarrow> objs w' ! b = objs w ! b"
        by auto
      have run: "walk (Suc n) d v w = (Inr (), w')"
        using loop at by (simp add: v)
      show ?thesis
        unfolding ok_result_def
        apply (rule exI [of _ w'])
        using run at at' keys' dist r' f' d' l' fr' na
        by (auto simp: JObj v Let_def)
    next
      case (JArr ts)
      from rp obtain a xs where v: "v = PRef a"
        and at: "heap_get (objs w) a = Some (PyList xs)"
        and na: "a \<notin> fp_items (objs w) xs ts"
        and ri: "repr_items (objs w) xs ts"
        by (auto simp: JArr split: pyval.splits option.splits pyobj.splits)
      have hi: "height_items ts \<le> n" using ht by (simp add: JArr)
      from walk_items [OF Suc ri hi]
      obtain w' where
        loop: "for_each (walk n d) xs w = (Inr (), w')"
        and r': "repr_items (objs w') xs (fst (twalk_items td ts (draws w)))"
        and f': "fp_items (objs w') xs (fst (twalk_items td ts (draws w))) \<subseteq> fp_items (objs w) xs ts"
        and d': "draws w' = snd (twalk_items td ts (draws w))"
        and l': "length (objs w') = length (objs w)"
        and fr': "\<forall>b. b \<notin> fp_items (objs w) xs ts \<longrightarrow> objs w' ! b = objs w ! b"
        by blast
      have at': "heap_get (objs w') a = Some (PyList xs)"
        using at na fr' l' by (simp add: heap_get_Some)
      have run: "walk (Suc n) d v w = (Inr (), w')"
        using loop at by (simp add: v)
      show ?thesis
        unfolding ok_result_def
        apply (rule exI [of _ w'])
        using run at at' r' f' d' l' fr' na
        by (auto simp: JArr v Let_def)
    qed (use rp in \<open>auto simp: ok_result_def\<close>)
  qed
qed

lemma ut_item_walk: "ut_item rec ts a i w = walk_item (decide_ts ts) rec a i w"
  by (simp add: ut_item_def walk_item_def decide_ts_def Let_def heap_set_def
      split: option.splits pyobj.splits)

lemma update_timestamps_walk: "update_timestamps n ts = walk n (decide_ts ts)"
proof (induction n)
  case 0
  show ?case by (intro ext) simp
next
  case (Suc n)
  have "ut_item (update_timestamps n ts) ts = walk_item (decide_ts ts) (walk n (decide_ts ts))"
    by (intro ext) (simp add: ut_item_walk Suc)
  then show ?case
    by (intro ext) (simp add: Suc split: pyval.splits option.splits pyobj.splits)
qed

lemma ur_item_walk: "ur_item rec e a i w = walk_item (decide_id e) rec a i w"
  by (simp add: ur_item_def walk_item_def decide_id_def Let_def heap_set_def
      split: option.splits pyobj.splits)

lemma update_request_id_walk: "update_request_id n e = walk n (decide_id e)"
proof (induction n)
  case 0
  show ?case by (intro ext) simp
next
  case (Suc n)
  have "ur_item (update_request_id n e) e = walk_item (decide_id e) (walk n (decide_id e))"
    by (intro ext) (simp add: ur_item_walk Suc)
  then show ?case
    by (intro ext) (simp add: Suc split: pyval.splits option.splits pyobj.splits)
qed

lemma drel_ts: "drel (decide_ts ts) (tdecide_ts ts)"
  by (simp add: drel_def decide_ts_def tdecide_ts_def truthy_repr)

lemma drel_id: "drel (decide_id e) (tdecide_id e)"
  by (simp add: drel_def decide_id_def tdecide_id_def)

lemma twalk_ts_counter:
  "snd (twalk (tdecide_ts now) t c) = c"
  "snd (twalk_fields (tdecide_ts now) fs c) = c"
  "snd (twalk_items (tdecide_ts now) ts c) = c"
  by (induction "tdecide_ts now" t c and "tdecide_ts now" fs c and "tdecide_ts now" ts c
      rule: twalk_twalk_fields_twalk_items.induct)
     (auto simp: Let_def tdecide_ts_def split: option.splits)

lemma twalk_height:
  "height (fst (twalk td t c)) \<le> height t"
  "height_fields (fst (twalk_fields td fs c)) \<le> height_fields fs"
  "height_items (fst (twalk_items td ts c)) \<le> height_items ts"
proof (induction td t c and td fs c and td ts c rule: twalk_twalk_fields_twalk_items.induct)
  case (9 d f fs c)
  have one: "Suc 0 \<le> height (snd f)" using height_pos [of "snd f"] by simp
  show ?case
  proof (cases "d (fst f) (snd f) c")
    case None
    from 9(1) [OF None] 9(2) [OF None refl]
    show ?thesis using None by (auto simp: Let_def le_max_iff_disj)
  next
    case (Some sc)
    from 9(3) [OF Some] one
    show ?thesis using Some by (auto simp: Let_def le_max_iff_disj)
  qed
next
  case (11 d t ts c)
  from 11(1) 11(2) [OF refl]
  show ?case by (auto simp: Let_def le_max_iff_disj)
qed (auto simp: Let_def)

lemma collect_Inr: "collect (map Inr ys) = Inr ys"
  by (induction ys) auto

lemma collect_map_Inr: "map f xs = map Inr ys \<Longrightarrow> collect (map f xs) = Inr ys"
  by (simp add: collect_Inr)

lemma json_dumps_repr:
  "repr h v t \<Longrightarrow> height t \<le> n \<Longrightarrow> json_dumps n h v = Inr t"
proof (induction n arbitrary: v t)
  case 0
  then show ?case using height_pos [of t] by simp
next
  case (Suc n)
  have fields: "repr_fields h kvs fs \<Longrightarrow> height_fields fs \<le> n \<Longrightarrow>
      map (\<lambda>kv. json_dumps n h (snd kv)) kvs = map Inr (map snd fs)" for kvs fs
  proof (induction fs arbitrary: kvs)
    case Nil
    then show ?case by simp
  next
    case (Cons f fs)
    then show ?case using Suc.IH by (cases kvs) auto
  qed
  have items: "repr_items h xs ts \<Longrightarrow> height_items ts \<le> n \<Longrightarrow>
      map (json_dumps n h) xs = map Inr ts" for xs ts
  proof (induction ts arbitrary: xs)
    case Nil
    then show ?case by simp
  next
    case (Cons t ts)
    then show ?case using Suc.IH by (cases xs) auto
  qed
  show ?case
  proof (cases t)
    case (JObj fs)
    from Suc.prems obtain a kvs where v: "v = PRef a"
      and at: "heap_get h a = Some (PyDict kvs)"
      and rf: "repr_fields h kvs fs"
      by (auto simp: JObj split: pyval.splits option.splits pyobj.splits)
    have hf: "height_fields fs \<le> n" using Suc.prems by (simp add: JObj)
    have c: "collect (map (\<lambda>kv. json_dumps n h (snd kv)) kvs) = Inr (map snd fs)"
      using fields [OF rf hf] by (simp add: collect_map_Inr)
    have z: "zip (map fst kvs) (map snd fs) = fs"
      using repr_fields_keys [OF rf] by (simp add: zip_map_fst_snd)
    show ?thesis by (simp add: v at c z JObj)
  next
    case (JArr ts)
    from Suc.prems obtain a xs where v: "v = PRef a"
      and at: "heap_get h a = Some (PyList xs)"
      and ri: "repr_items h xs ts"
      by (auto simp: JArr split: pyval.splits option.splits pyobj.splits)
    have hi: "height_items ts \<le> n" using Suc.prems by (simp add: JArr)
    have c: "collect (map (json_dumps n h) xs) = Inr ts"
      using items [OF ri hi] by (simp add: collect_map_Inr)
    show ?thesis by (simp add: v at c JArr)
  qed (use Suc.prems in auto)
qed

lemma customize_response_repr:
  assumes rp: "repr (objs w) v t" and ht: "height t \<le> fuel"
  shows "\<exists>w'. customize_response fuel e utc v [] w = (Inr v, w')
           \<and> repr (objs w') v (customized e utc (draws w) t)
           \<and> json_dumps fuel (objs w') v = Inr (customized e utc (draws w) t)
           \<and> length (objs w') = length (objs w)
           \<and> (\<forall>b. b \<notin> fp (objs w) v t \<longrightarrow> objs w' ! b = objs w ! b)"
proof -
  let ?now = "utc @ ''+00:00''"
  let ?t1 = "fst (twalk (tdecide_ts ?now) t (draws w))"
  have "ok_result (tdecide_ts ?now) (update_timestamps fuel ?now v w) w v t"
    using walk_refines [OF drel_ts, of ?now fuel] rp ht
    by (simp add: rec_ok_def update_timestamps_walk)
  then obtain w1 where s1: "update_timestamps fuel ?now v w = (Inr (), w1)"
    and r1: "repr (objs w1) v ?t1"
    and f1: "fp (objs w1) v ?t1 \<subseteq> fp (objs w) v t"
    and d1: "draws w1 = draws w"
    and l1: "length (objs w1) = length (objs w)"
    and fr1: "\<forall>b. b \<notin> fp (objs w) v t \<longrightarrow> objs w1 ! b = objs w ! b"
    unfolding ok_result_def by (auto simp: twalk_ts_counter)
  have h1: "height ?t1 \<le> fuel"
    using twalk_height(1) [of "tdecide_ts ?now" t "draws w"] ht by simp
  let ?t2 = "fst (twalk (tdecide_id e) ?t1 (draws w1))"
  have "ok_result (tdecide_id e) (update_request_id fuel e v w1) w1 v ?t1"
    using walk_refines [OF drel_id, of e fuel] r1 h1
    by (simp add: rec_ok_def update_request_id_walk)
  then obtain w2 where s2: "update_request_id fuel e v w1 = (Inr (), w2)"
    and r2: "repr (objs w2) v ?t2"
    and l2: "length (objs w2) = length (objs w1)"
    and fr2: "\<forall>b. b \<notin> fp (objs w1) v ?t1 \<longrightarrow> objs w2 ! b = objs w1 ! b"
    unfolding ok_result_def by auto
  have t2: "?t2 = customized e utc (draws w) t"
    by (simp add: customized_def d1)
  have h2: "height ?t2 \<le> fuel"
    using twalk_height(1) [of "tdecide_id e" ?t1 "draws w1"] h1 by simp
  have run: "customize_response fuel e utc v [] w = (Inr v, w2)"
    by (simp add: customize_response_def s1 s2)
  have fr: "\<forall>b. b \<notin> fp (objs w) v t \<longrightarrow> objs w2 ! b = objs w ! b"
  proof (intro allI impI)
    fix b assume nb: "b \<notin> fp (objs w) v t"
    then have "b \<notin> fp (objs w1) v ?t1" using f1 by auto
    then have "objs w2 ! b = objs w1 ! b" using fr2 by simp
    also have "\<dots> = objs w ! b" using fr1 nb by simp
    finally show "objs w2 ! b = objs w ! b" .
  qed
  show ?thesis
    apply (rule exI [of _ w2])
    using run r2 json_dumps_repr [OF r2 h2] l1 l2 fr unfolding t2 by simp
qed

lemma copy_obj_repr:
  assumes rp: "repr (objs w) v t" and cont: "is_container v"
  shows "\<exists>ob. copy_obj v w = (Inr (PRef (length (objs w))), w\<lparr>objs := objs w @ [ob]\<rparr>)
           \<and> repr (objs w @ [ob]) (PRef (length (objs w))) t"
proof -
  let ?h = "objs w"
  have app: "\<And>ob b. b < length ?h \<Longrightarrow> (?h @ [ob]) ! b = ?h ! b"
    by (simp add: nth_append)
  from container_repr [OF rp] cont
  consider (obj) fs where "t = JObj fs" | (arr) ts where "t = JArr ts" by blast
  then show ?thesis
  proof cases
    case obj
    from rp obtain a kvs where v: "v = PRef a"
      and at: "heap_get ?h a = Some (PyDict kvs)"
      and dist: "distinct (map fst kvs)"
      and rf: "repr_fields ?h kvs fs"
      by (auto simp: obj split: pyval.splits option.splits pyobj.splits)
    let ?h' = "?h @ [PyDict kvs]"
    have same: "\<forall>b\<in>fp_fields ?h kvs fs. ?h' ! b = ?h ! b"
      using fp_bound(2) app by blast
    have rf': "repr_fields ?h' kvs fs" and fpe: "fp_fields ?h' kvs fs = fp_fields ?h kvs fs"
      using frame(2) [OF rf _ same] by simp_all
    have fresh: "length ?h \<notin> fp_fields ?h' kvs fs"
      using fp_bound(2) [of "length ?h" ?h kvs fs] fpe by auto
    have "repr ?h' (PRef (length ?h)) t"
      using rf' fresh dist by (simp add: obj heap_get_def)
    moreover have "copy_obj v w = (Inr (PRef (length ?h)), w\<lparr>objs := ?h'\<rparr>)"
      using at by (simp add: copy_obj_def v alloc_def)
    ultimately show ?thesis by blast
  next
    case arr
    from rp obtain a xs where v: "v = PRef a"
      and at: "heap_get ?h a = Some (PyList xs)"
      and ri: "repr_items ?h xs ts"
      by (auto simp: arr split: pyval.splits option.splits pyobj.splits)
    let ?h' = "?h @ [PyList xs]"
    have same: "\<forall>b\<in>fp_items ?h xs ts. ?h' ! b = ?h ! b"
      using fp_bound(3) app by blast
    have ri': "repr_items ?h' xs ts" and fpe: "fp_items ?h' xs ts = fp_items ?h xs ts"
      using frame(3) [OF ri _ same] by simp_all
    have fresh: "length ?h \<notin> fp_items ?h' xs ts"
      using fp_bound(3) [of "length ?h" ?h xs ts] fpe by auto
    have "repr ?h' (PRef (length ?h)) t"
      using ri' fresh by (simp add: arr heap_get_def)
    moreover have "copy_obj v w = (Inr (PRef (length ?h)), w\<lparr>objs := ?h'\<rparr>)"
      using at by (simp add: copy_obj_def v alloc_def)
    ultimately show ?thesis by blast
  qed
qed

lemma get_response_hit:
  assumes p: "map_of responses provider = Some ss"
    and s: "map_of ss scenario = Some v"
    and rp: "repr (objs w) v t" and cont: "is_container v" and ht: "height t \<le> fuel"
  shows "\<exists>w'. get_response fuel e utc responses provider scenario [] w
                = (Inr (PRef (length (objs w))), w')
           \<and> json_dumps fuel (objs w') (PRef (length (objs w)))
                = Inr (customized e utc (draws w) t)"
proof -
  from copy_obj_repr [OF rp cont] obtain ob where
    c: "copy_obj v w = (Inr (PRef (length (objs w))), w\<lparr>objs := objs w @ [ob]\<rparr>)"
    and r: "repr (objs w @ [ob]) (PRef (length (objs w))) t"
    by blast
  let ?w1 = "w\<lparr>objs := objs w @ [ob]\<rparr>"
  have r1: "repr (objs ?w1) (PRef (length (objs w))) t" using r by simp
  from customize_response_repr [OF r1 ht, of e utc]
  obtain w' where
    cu: "customize_response fuel e utc (PRef (length (objs w))) [] ?w1
           = (Inr (PRef (length (objs w))), w')"
    and d: "json_dumps fuel (objs w') (PRef (length (objs w))) = Inr (customized e utc (draws ?w1) t)"
    by blast
  show ?thesis
    apply (rule exI [of _ w'])
    using p s c cu d by (simp add: get_response_def)
qed

section \<open>Claims about routing and responses\<close>

text \<open>
  Claim C5. For an action other than \<open>test-scenarios\<close>, \<open>route_request\<close> answers with
  \<open>get_response\<close> for the provider it was given and for this scenario: the first value
  of the query parameter \<open>scenario\<close> when the parameter is present, otherwise
  \<open>success-create-server\<close> for the actions \<open>servers\<close>, \<open>instances\<close>, \<open>droplets\<close> and
  \<open>create-server\<close>, \<open>success-list-servers\<close> for \<open>list-servers\<close>,
  \<open>success-server-status\<close> for \<open>server-status\<close>, and \<open>success-create-server\<close> for any
  other action. The HTTP method makes no difference. For a request that is admitted and
  not failed at random, whose path has the segments \<open>provider\<close>, \<open>action\<close> and possibly
  more, the handler answers from \<open>get_response\<close> for that first segment as the provider
  and that scenario. (\<open>parse_qs\<close> never gives a parameter an empty list of values.)
\<close>

theorem C5_route:
  "action \<noteq> ''test-scenarios'' \<Longrightarrow> qp ''scenario'' \<noteq> Some [] \<Longrightarrow>
   (let scenario =
          (case qp ''scenario'' of
             Some (v # vs) \<Rightarrow> v
           | _ \<Rightarrow>
             (if action \<in> {''servers'', ''instances'', ''droplets'', ''create-server''}
              then ''success-create-server''
              else if action = ''list-servers'' then ''success-list-servers''
              else if action = ''server-status'' then ''success-server-status''
              else ''success-create-server''))
    in route_request fuel e utc responses provider action method qp w
         = get_response fuel e utc responses provider scenario [] w
       \<and> route_request fuel e utc responses provider action method' qp w
         = get_response fuel e utc responses provider scenario [] w
       \<and> (\<not> fst (is_rate_limited config (t_limit rd) (client_address req) rq) \<longrightarrow>
          \<not> failure_draw rd < failure_rate config \<longrightarrow>
          split_on CHR ''/'' (strip_slashes (url_path req)) = provider # action # rest \<longrightarrow>
          url_query req = qp \<longrightarrow>
          handle_request fuel config e responses method req rd (rq, w) =
            (case get_response fuel e (utcnow rd) responses provider scenario [] w of
               (Inl x, w1) \<Rightarrow> on_exception fuel config e rd (client_address req)
                               (snd (is_rate_limited config (t_limit rd) (client_address req) rq)) x w1
             | (Inr resp, w1) \<Rightarrow>
                 (case send_json_response fuel config e rd (client_address req)
                         (snd (is_rate_limited config (t_limit rd) (client_address req) rq))
                         200 resp w1 of
                    Inl x \<Rightarrow> on_exception fuel config e rd (client_address req)
                               (snd (is_rate_limited config (t_limit rd) (client_address req) rq)) x w1
                  | Inr r \<Rightarrow> (Some r,
                      (snd (is_rate_limited config (t_limit rd) (client_address req) rq), w1))))))"
proof -
  assume a: "action \<noteq> ''test-scenarios''" and q: "qp ''scenario'' \<noteq> Some []"
  have sc: "(case qp ''scenario'' of
             Some (v # vs) \<Rightarrow> v
           | _ \<Rightarrow>
             (if action \<in> {''servers'', ''instances'', ''droplets'', ''create-server''}
              then ''success-create-server''
              else if action = ''list-servers'' then ''success-list-servers''
              else if action = ''server-status'' then ''success-server-status''
              else ''success-create-server''))
      = (case qp ''scenario'' of
          Some (v # vs) \<Rightarrow> v
        | _ \<Rightarrow> (case map_of scenario_map action of None \<Rightarrow> ''success-create-server'' | Some s \<Rightarrow> s))"
    by (simp only: scenario_map_eq)
  show ?thesis
    unfolding Let_def sc
    using a q
    by (simp add: handle_request_routed route_request_eq)
qed

theorem C5_route_witness:
  "''instances'' \<noteq> ''test-scenarios''
   \<and> url_query req_quota ''scenario'' \<noteq> Some []
   \<and> route_request 5 env0 (utcnow rd0) [] ''aws'' ''instances'' GET (url_query req_quota) w0
       = get_response 5 env0 (utcnow rd0) [] ''aws'' ''quota-exceeded'' [] w0
   \<and> route_request 5 env0 (utcnow rd0) [] ''aws'' ''instances'' POST (url_query req_quota) w0
       = get_response 5 env0 (utcnow rd0) [] ''aws'' ''quota-exceeded'' [] w0
   \<and> \<not> fst (is_rate_limited cfg2 (t_limit rd0) (client_address req_quota) Map.empty)
   \<and> \<not> failure_draw rd0 < failure_rate cfg2
   \<and> split_on CHR ''/'' (strip_slashes (url_path req_quota)) = ''aws'' # ''instances'' # []
   \<and> handle_request 5 cfg2 env0 [] GET req_quota rd0 (Map.empty, w0) =
        (case get_response 5 env0 (utcnow rd0) [] ''aws'' ''quota-exceeded'' [] w0 of
           (Inl x, w1) \<Rightarrow> on_exception 5 cfg2 env0 rd0 (client_address req_quota)
                           (snd (is_rate_limited cfg2 (t_limit rd0) (client_address req_quota) Map.empty)) x w1
         | (Inr resp, w1) \<Rightarrow>
             (case send_json_response 5 cfg2 env0 rd0 (client_address req_quota)
                     (snd (is_rate_limited cfg2 (t_limit rd0) (client_address req_quota) Map.empty))
                     200 resp w1 of
                Inl x \<Rightarrow> on_exception 5 cfg2 env0 rd0 (client_address req_quota)
                           (snd (is_rate_limited cfg2 (t_limit rd0) (client_address req_quota) Map.empty)) x w1
              | Inr r \<Rightarrow> (Some r,
                  (snd (is_rate_limited cfg2 (t_limit rd0) (client_address req_quota) Map.empty), w1))))"
proof -
  have h1: "''instances'' \<noteq> ''test-scenarios''" by simp
  have h2: "url_query req_quota ''scenario'' \<noteq> Some []" by (simp add: req_quota_def)
  have h3: "\<not> fst (is_rate_limited cfg2 (t_limit rd0) (client_address req_quota) Map.empty)"
    using not_limited0 by (simp add: req_quota_def)
  have sc: "(case url_query req_quota ''scenario'' of
               Some (v # vs) \<Rightarrow> v
             | _ \<Rightarrow>
               (if ''instances'' \<in> {''servers'', ''instances'', ''droplets'', ''create-server''}
                then ''success-create-server''
                else if ''instances'' = ''list-servers'' then ''success-list-servers''
                else if ''instances'' = ''server-status'' then ''success-server-status''
                else ''success-create-server'')) = ''quota-exceeded''"
    by (simp add: req_quota_def)
  note T = C5_route [where action = "''instances''" and qp = "url_query req_quota"
      and fuel = 5 and e = env0 and utc = "utcnow rd0" and responses = "[]" and provider = "''aws''"
      and method' = POST and w = w0 and config = cfg2 and rd = rd0
      and req = req_quota and rq = Map.empty and rest = "[]", OF h1 h2, unfolded Let_def sc]
  show ?thesis
    using T h1 h2 h3 no_failure0 split_quota by blast
qed

text \<open>
  Claim C9. Every response the handler writes, whatever its status, carries exactly
  these headers of its own: \<open>Content-Type: application/json\<close>, \<open>Content-Length\<close> (the
  length of the rendered body), \<open>X-RateLimit-Limit\<close>, \<open>X-RateLimit-Remaining\<close> and
  \<open>X-RateLimit-Reset\<close> from \<open>get_rate_limit_info\<close> for the requesting client on the limiter
  as this request's check left it, \<open>Access-Control-Allow-Origin: *\<close>,
  \<open>Access-Control-Allow-Methods\<close> and \<open>Access-Control-Allow-Headers\<close>. And a request that is
  not rate limited always gets a response, when at least three nested calls are allowed.
\<close>

theorem C9_headers:
  "(fst (handle_request fuel config e responses method req rd (rq, w)) = Some r \<longrightarrow>
      headers r =
        [(''Content-Type'', ''application/json''),
         (''Content-Length'', str_nat (length (dumps_text e (body r)))),
         (''X-RateLimit-Limit'',
            str_int (limit (get_rate_limit_info config (t_info rd) (client_address req)
              (snd (is_rate_limited config (t_limit rd) (client_address req) rq))))),
         (''X-RateLimit-Remaining'',
            str_int (remaining (get_rate_limit_info config (t_info rd) (client_address req)
              (snd (is_rate_limited config (t_limit rd) (client_address req) rq))))),
         (''X-RateLimit-Reset'',
            str_int (reset (get_rate_limit_info config (t_info rd) (client_address req)
              (snd (is_rate_limited config (t_limit rd) (client_address req) rq))))),
         (''Access-Control-Allow-Origin'', ''*''),
         (''Access-Control-Allow-Methods'', ''GET, POST, PUT, DELETE, OPTIONS''),
         (''Access-Control-Allow-Headers'', ''Content-Type, Authorization'')])
   \<and> (3 \<le> fuel \<longrightarrow> \<not> fst (is_rate_limited config (t_limit rd) (client_address req) rq) \<longrightarrow>
        (\<exists>r'. fst (handle_request fuel config e responses method req rd (rq, w)) = Some r'))"
  using handle_request_headers [of fuel config e responses "method" req rd rq w r]
    handle_request_Some [of fuel config rd req rq e responses "method" w]
  by (simp add: handle_request_requests std_headers_def)

theorem C9_headers_witness:
  "3 \<le> (5::nat)
   \<and> \<not> fst (is_rate_limited cfg2 (t_limit rd0) (client_address req_invalid) Map.empty)
   \<and> (\<exists>r. fst (handle_request 5 cfg2 env0 [] GET req_invalid rd0 (Map.empty, w0)) = Some r
        \<and> status r = 404
        \<and> headers r =
            [(''Content-Type'', ''application/json''),
             (''Content-Length'', str_nat (length (dumps_text env0 (body r)))),
             (''X-RateLimit-Limit'',
                str_int (limit (get_rate_limit_info cfg2 (t_info rd0) (client_address req_invalid)
                  (snd (is_rate_limited cfg2 (t_limit rd0) (client_address req_invalid) Map.empty))))),
             (''X-RateLimit-Remaining'',
                str_int (remaining (get_rate_limit_info cfg2 (t_info rd0) (client_address req_invalid)
                  (snd (is_rate_limited cfg2 (t_limit rd0) (client_address req_invalid) Map.empty))))),
             (''X-RateLimit-Reset'',
                str_int (reset (get_rate_limit_info cfg2 (t_info rd0) (client_address req_invalid)
                  (snd (is_rate_limited cfg2 (t_limit rd0) (client_address req_invalid) Map.empty))))),
             (''Access-Control-Allow-Origin'', ''*''),
             (''Access-Control-Allow-Methods'', ''GET, POST, PUT, DELETE, OPTIONS''),
             (''Access-Control-Allow-Headers'', ''Content-Type, Authorization'')])"
proof -
  have h1: "3 \<le> (5::nat)" by simp
  have h2: "\<not> fst (is_rate_limited cfg2 (t_limit rd0) (client_address req_invalid) Map.empty)"
    using not_limited0 by (simp add: req_invalid_def)
  have l: "length (split_on CHR ''/'' (strip_slashes (url_path req_invalid))) < 2"
    by (simp add: split_invalid)
  have five: "(5::nat) = Suc (Suc (Suc (Suc (Suc 0))))" by simp
  have st: "\<exists>r. fst (handle_request 5 cfg2 env0 [] GET req_invalid rd0 (Map.empty, w0)) = Some r
              \<and> status r = 404"
    by (simp add: handle_request_invalid [OF h2 no_failure0 l] send_json_response_eq
        heap_get_def w0_def five)
  then obtain r where r: "fst (handle_request 5 cfg2 env0 [] GET req_invalid rd0 (Map.empty, w0)) = Some r"
    and s: "status r = 404" by blast
  from C9_headers [of 5 cfg2 env0 "[]" GET req_invalid rd0 Map.empty w0 r] r s h1 h2
  show ?thesis by blast
qed

text \<open>
  Claim C10. When a request is rate limited and the store has no provider \<open>hetzner\<close>,
  or \<open>hetzner\<close> has no scenario \<open>rate-limit-exceeded\<close>, the response still has status
  429 and its body is the error envelope of the failed lookup: code
  \<open>provider_not_found\<close> or \<open>scenario_not_found\<close>, with \<open>status_code\<close> 404 inside.
\<close>

theorem C10_rate_limited_without_fixture:
  "3 \<le> fuel \<Longrightarrow> fst (is_rate_limited config (t_limit rd) (client_address req) rq) \<Longrightarrow>
   (map_of responses ''hetzner'' = None \<longrightarrow>
      (\<exists>r. fst (handle_request fuel config e responses method req rd (rq, w)) = Some r
         \<and> status r = 429
         \<and> body r = error_envelope e (utcnow rd) (draws w) 404 ''provider_not_found''
                      (''Provider '' @ [CHR 0x27] @ ''hetzner'' @ [CHR 0x27] @ '' not supported'')))
   \<and> (\<forall>ss. map_of responses ''hetzner'' = Some ss \<longrightarrow> map_of ss ''rate-limit-exceeded'' = None \<longrightarrow>
      (\<exists>r. fst (handle_request fuel config e responses method req rd (rq, w)) = Some r
         \<and> status r = 429
         \<and> body r = error_envelope e (utcnow rd) (draws w) 404 ''scenario_not_found''
                      (''Scenario '' @ [CHR 0x27] @ ''rate-limit-exceeded'' @ [CHR 0x27]
                         @ '' not found for provider '' @ [CHR 0x27] @ ''hetzner'' @ [CHR 0x27])))"
proof -
  assume fuel: "3 \<le> fuel"
    and lim: "fst (is_rate_limited config (t_limit rd) (client_address req) rq)"
  show ?thesis
    using json_dumps_envelope [OF fuel]
    by (auto simp: handle_request_limited [OF lim] send_rate_limit_response_def
        get_response_no_provider get_response_no_scenario send_json_response_eq)
qed

theorem C10_rate_limited_without_fixture_witness:
  "3 \<le> (5::nat)
   \<and> fst (is_rate_limited cfg2 (t_limit rd0) (client_address req_quota) [''10.0.0.1'' \<mapsto> [8, 9]])
   \<and> map_of ([] :: responses) ''hetzner'' = None
   \<and> (\<exists>r. fst (handle_request 5 cfg2 env0 [] GET req_quota rd0 ([''10.0.0.1'' \<mapsto> [8, 9]], w0)) = Some r
         \<and> status r = 429
         \<and> body r = error_envelope env0 (utcnow rd0) (draws w0) 404 ''provider_not_found''
                      (''Provider '' @ [CHR 0x27] @ ''hetzner'' @ [CHR 0x27] @ '' not supported''))
   \<and> map_of [(''hetzner'', [(''success-create-server'', PNone)])] ''hetzner''
        = Some [(''success-create-server'', PNone)]
   \<and> map_of [(''success-create-server'', PNone)] ''rate-limit-exceeded'' = None
   \<and> (\<exists>r. fst (handle_request 5 cfg2 env0 [(''hetzner'', [(''success-create-server'', PNone)])]
               GET req_quota rd0 ([''10.0.0.1'' \<mapsto> [8, 9]], w0)) = Some r
         \<and> status r = 429
         \<and> body r = error_envelope env0 (utcnow rd0) (draws w0) 404 ''scenario_not_found''
                      (''Scenario '' @ [CHR 0x27] @ ''rate-limit-exceeded'' @ [CHR 0x27]
                         @ '' not found for provider '' @ [CHR 0x27] @ ''hetzner'' @ [CHR 0x27]))"
proof -
  have h1: "3 \<le> (5::nat)" by simp
  have h2: "fst (is_rate_limited cfg2 (t_limit rd0) (client_address req_quota) [''10.0.0.1'' \<mapsto> [8, 9]])"
    using limited2 by (simp add: req_quota_def)
  have h3: "map_of ([] :: responses) ''hetzner'' = None" by simp
  have h4: "map_of [(''hetzner'', [(''success-create-server'', PNone)])] ''hetzner''
        = Some [(''success-create-server'', PNone)]" by simp
  have h5: "map_of [(''success-create-server'', PNone)] ''rate-limit-exceeded'' = None" by simp
  note A = C10_rate_limited_without_fixture [OF h1 h2, of "[]" env0 GET w0]
  note B = C10_rate_limited_without_fixture [OF h1 h2,
      of "[(''hetzner'', [(''success-create-server'', PNone)])]" env0 GET w0]
  show ?thesis using A B h1 h2 h3 h4 h5 by blast
qed

text \<open>
  Claim C2 asks for HTTP status 404 when the provider or the scenario is not in the
  store. The handler sends whatever \<open>route_request\<close> returns with status 200
  (\<open>lookup_miss_sent_200\<close> above): for \<open>GET /doesnotexist/servers\<close> on a store that holds
  only \<open>hetzner\<close>, the response has status 200, and its body is the error envelope with
  code \<open>provider_not_found\<close> and \<open>status_code\<close> 404.
\<close>

theorem C2_lookup_miss_sent_with_200:
  "(\<exists>r. fst (handle_request 1000 cfg2 env0 responses1 GET req_unknown rd0 (Map.empty, world1)) = Some r
      \<and> status r = 200
      \<and> body r = error_envelope env0 (utcnow rd0) 0 404 ''provider_not_found''
                   (''Provider '' @ [CHR 0x27] @ ''doesnotexist'' @ [CHR 0x27] @ '' not supported''))"
proof -
  have h1: "3 \<le> (1000::nat)" by simp
  have h2: "\<not> fst (is_rate_limited cfg2 (t_limit rd0) (client_address req_unknown) Map.empty)"
    using not_limited0 by (simp add: req_unknown_def)
  have sp: "split_on CHR ''/'' (strip_slashes (url_path req_unknown)) = ''doesnotexist'' # ''servers'' # []"
    by (simp add: req_unknown_def strip_slashes_def)
  have m: "map_of responses1 ''doesnotexist'' = None" by (simp add: responses1_def)
  have q: "url_query req_unknown ''scenario'' = None" by (simp add: req_unknown_def)
  have d: "draws world1 = 0" by (simp add: world1_def)
  show ?thesis
    using json_dumps_envelope [OF h1, of env0 "utcnow rd0" 404 "''provider_not_found''" _ world1] m q
    by (simp add: handle_request_routed [OF h2 no_failure0 sp] route_request_def
        get_response_no_provider send_json_response_eq d)
qed


end
